theory Spec2Isabelle
  imports Main "HOL-Library.Word"
begin

unbundle bit_operations_syntax

section \<open>Python values and dictionaries\<close>

text \<open>
  The file table of a commit is a Python \<^verbatim>\<open>dict\<close> from path to content. A content is
  a string, or \<^verbatim>\<open>None\<close>: \<^verbatim>\<open>_calculate_diff\<close> stores the result of
  \<^verbatim>\<open>source_files.get(file) or target_files.get(file)\<close>, which is \<^verbatim>\<open>None\<close> when the
  source content is the empty string and the target has no such path. A dict keeps its
  items in insertion order, and \<^verbatim>\<open>str(d)\<close> shows them in that order, so a dict is an
  association list with distinct keys, oldest item first. Strings are sequences of code
  points below 256.
\<close>

datatype pyval = PyNone | PyStr string

type_synonym pydict = "(string \<times> pyval) list"

text \<open>\<^verbatim>\<open>d.get(k)\<close>: the value, or \<^verbatim>\<open>None\<close> for a missing key.\<close>

definition dict_get :: "pydict \<Rightarrow> string \<Rightarrow> pyval" where
  "dict_get d k = (case map_of d k of None \<Rightarrow> PyNone | Some v \<Rightarrow> v)"

text \<open>\<^verbatim>\<open>d[k] = v\<close>: an existing key keeps its position, a new key goes last.\<close>

fun dict_setitem :: "pydict \<Rightarrow> string \<Rightarrow> pyval \<Rightarrow> pydict" where
  "dict_setitem [] k v = [(k, v)]"
| "dict_setitem ((k', v') # d) k v =
     (if k' = k then (k, v) # d else (k', v') # dict_setitem d k v)"

text \<open>\<^verbatim>\<open>d.update(e)\<close>: \<^verbatim>\<open>d[k] = v\<close> for every item of \<^verbatim>\<open>e\<close>, in the order of \<^verbatim>\<open>e\<close>.\<close>

definition dict_update :: "pydict \<Rightarrow> pydict \<Rightarrow> pydict" where
  "dict_update d e = foldl (\<lambda>acc kv. dict_setitem acc (fst kv) (snd kv)) d e"

definition dict_keys :: "pydict \<Rightarrow> string list" where
  "dict_keys d = map fst d"

text \<open>Truth value of a content: \<^verbatim>\<open>None\<close> and the empty string are falsy.\<close>

fun truthy :: "pyval \<Rightarrow> bool" where
  "truthy PyNone = False"
| "truthy (PyStr s) = (s \<noteq> [])"

text \<open>\<^verbatim>\<open>a or b\<close>\<close>

definition py_or :: "pyval \<Rightarrow> pyval \<Rightarrow> pyval" where
  "py_or a b = (if truthy a then a else b)"

section \<open>\<^verbatim>\<open>str\<close> of a dictionary\<close>

text \<open>
  \<^verbatim>\<open>repr\<close> of a string: single quotes, unless the string has a single quote and no
  double quote; the quote and the backslash are escaped, tab, newline and carriage return
  are written \<^verbatim>\<open>\t \n \r\<close>, and every other code point that is not printable (below 32,
  127 to 160, and 173) is written \<^verbatim>\<open>\xNN\<close>.
\<close>

definition hex_digit :: "nat \<Rightarrow> char" where
  "hex_digit n = ''0123456789abcdef'' ! (n mod 16)"

definition repr_char :: "char \<Rightarrow> char \<Rightarrow> string" where
  "repr_char quote c =
     (if c = quote \<or> c = CHR 0x5C then [CHR 0x5C, c]
      else if c = CHR 0x09 then [CHR 0x5C, CHR ''t'']
      else if c = CHR 0x0A then [CHR 0x5C, CHR ''n'']
      else if c = CHR 0x0D then [CHR 0x5C, CHR ''r'']
      else if (of_char c :: nat) < 32 \<or> (127 \<le> (of_char c :: nat) \<and> (of_char c :: nat) \<le> 160)
              \<or> (of_char c :: nat) = 173
        then [CHR 0x5C, CHR ''x'', hex_digit (of_char c div 16), hex_digit (of_char c)]
      else [c])"

definition repr_str :: "string \<Rightarrow> string" where
  "repr_str s =
     (if CHR 0x27 \<in> set s \<and> CHR 0x22 \<notin> set s
      then [CHR 0x22] @ concat (map (repr_char (CHR 0x22)) s) @ [CHR 0x22]
      else [CHR 0x27] @ concat (map (repr_char (CHR 0x27)) s) @ [CHR 0x27])"

fun repr_val :: "pyval \<Rightarrow> string" where
  "repr_val PyNone = ''None''"
| "repr_val (PyStr s) = repr_str s"

fun join_items :: "string list \<Rightarrow> string" where
  "join_items [] = []"
| "join_items [x] = x"
| "join_items (x # y # ys) = x @ '', '' @ join_items (y # ys)"

text \<open>\<^verbatim>\<open>str(d)\<close>: the items as \<^verbatim>\<open>key: value\<close> in insertion order, in braces.\<close>

definition str_dict :: "pydict \<Rightarrow> string" where
  "str_dict d = ''{'' @ join_items (map (\<lambda>kv. repr_str (fst kv) @ '': '' @ repr_val (snd kv)) d) @ ''}''"

section \<open>\<^verbatim>\<open>hashlib.sha1(s.encode()).hexdigest()\<close>\<close>

text \<open>
  \<^verbatim>\<open>s.encode()\<close> is UTF-8: one byte for a code point below 128, two bytes for the others
  below 256. SHA-1 is the function of FIPS 180-4 on 32-bit words, written here on natural
  numbers with the reduction modulo \<open>2^32\<close> spelled out.
\<close>

definition utf8_char :: "char \<Rightarrow> nat list" where
  "utf8_char c =
     (if (of_char c :: nat) < 128 then [of_char c]
      else [192 + of_char c div 64, 128 + of_char c mod 64])"

definition encode :: "string \<Rightarrow> nat list" where
  "encode s = concat (map utf8_char s)"

definition add32 :: "nat \<Rightarrow> nat \<Rightarrow> nat" where
  "add32 x y = (x + y) mod 4294967296"

definition rotl32 :: "nat \<Rightarrow> nat \<Rightarrow> nat" where
  "rotl32 n x = (x * 2 ^ n) mod 4294967296 + x div 2 ^ (32 - n)"

definition not32 :: "nat \<Rightarrow> nat" where
  "not32 x = 4294967295 - x"

definition be_bytes :: "nat \<Rightarrow> nat list" where
  "be_bytes n = map (\<lambda>i. (n div 2 ^ (8 * i)) mod 256) [7, 6, 5, 4, 3, 2, 1, 0]"

definition sha1_pad :: "nat list \<Rightarrow> nat list" where
  "sha1_pad msg = msg @ [128] @ map (\<lambda>_. 0) [0..<(119 - length msg mod 64) mod 64]
                  @ be_bytes (8 * length msg)"

fun words_of :: "nat list \<Rightarrow> nat list" where
  "words_of (a # b # c # d # rest) = (((a * 256 + b) * 256 + c) * 256 + d) # words_of rest"
| "words_of _ = []"

fun chunks16 :: "nat list \<Rightarrow> nat list list" where
  "chunks16 (w0 # w1 # w2 # w3 # w4 # w5 # w6 # w7 # w8 # w9 # w10 # w11 # w12 # w13 # w14 # w15 # rest) =
     [w0, w1, w2, w3, w4, w5, w6, w7, w8, w9, w10, w11, w12, w13, w14, w15] # chunks16 rest"
| "chunks16 _ = []"

fun schedule :: "nat list \<Rightarrow> nat list \<Rightarrow> nat list" where
  "schedule [] w = w"
| "schedule (t # ts) w =
     schedule ts (w @ [rotl32 1 (w ! (t - 3) XOR w ! (t - 8) XOR w ! (t - 14) XOR w ! (t - 16))])"

definition sha1_f :: "nat \<Rightarrow> nat \<Rightarrow> nat \<Rightarrow> nat \<Rightarrow> nat" where
  "sha1_f t b c d =
     (if t < 20 then (b AND c) OR (not32 b AND d)
      else if t < 40 then b XOR c XOR d
      else if t < 60 then (b AND c) OR (b AND d) OR (c AND d)
      else b XOR c XOR d)"

definition sha1_k :: "nat \<Rightarrow> nat" where
  "sha1_k t = (if t < 20 then 0x5A827999 else if t < 40 then 0x6ED9EBA1
               else if t < 60 then 0x8F1BBCDC else 0xCA62C1D6)"

type_synonym sha1_state = "nat \<times> nat \<times> nat \<times> nat \<times> nat"

fun sha1_round :: "sha1_state \<Rightarrow> nat \<times> nat \<Rightarrow> sha1_state" where
  "sha1_round (a, b, c, d, e) (t, wt) =
     (add32 (add32 (add32 (add32 (rotl32 5 a) (sha1_f t b c d)) e) (sha1_k t)) wt,
      a, rotl32 30 b, c, d)"

fun add_state :: "sha1_state \<Rightarrow> sha1_state \<Rightarrow> sha1_state" where
  "add_state (h0, h1, h2, h3, h4) (a, b, c, d, e) =
     (add32 h0 a, add32 h1 b, add32 h2 c, add32 h3 d, add32 h4 e)"

definition sha1_block :: "sha1_state \<Rightarrow> nat list \<Rightarrow> sha1_state" where
  "sha1_block h blk = add_state h (foldl sha1_round h (zip [0..<80] (schedule [16..<80] blk)))"

definition sha1 :: "nat list \<Rightarrow> sha1_state" where
  "sha1 msg = foldl sha1_block (0x67452301, 0xEFCDAB89, 0x98BADCFE, 0x10325476, 0xC3D2E1F0)
                (chunks16 (words_of (sha1_pad msg)))"

definition hex_word :: "nat \<Rightarrow> string" where
  "hex_word w = map (\<lambda>i. hex_digit (w div 16 ^ i)) [7, 6, 5, 4, 3, 2, 1, 0]"

fun hexdigest :: "sha1_state \<Rightarrow> string" where
  "hexdigest (a, b, c, d, e) = hex_word a @ hex_word b @ hex_word c @ hex_word d @ hex_word e"

text \<open>\<^verbatim>\<open>hashlib.sha1(str(d).encode()).hexdigest()[:7]\<close>\<close>

definition commit_hash :: "pydict \<Rightarrow> string" where
  "commit_hash d = take 7 (hexdigest (sha1 (encode (str_dict d))))"

section \<open>Commits and branch nodes\<close>

record commit =
  cid :: string
  message :: string
  files :: pydict

text \<open>
  A \<^verbatim>\<open>BranchNode\<close> is a mutable object: the tree is built from references to nodes
  (\<^verbatim>\<open>children\<close>, \<^verbatim>\<open>parent\<close>, and the manager's \<^verbatim>\<open>root\<close> and \<^verbatim>\<open>current\<close>). A reference
  is an address, and the heap maps every address to the node stored there.
\<close>

type_synonym addr = nat

record branch_node =
  name :: string
  parent :: "addr option"
  children :: "addr list"
  commits :: "commit list"

type_synonym heap = "addr \<Rightarrow> branch_node"

text \<open>\<^verbatim>\<open>BranchNode(name, parent)\<close>, as \<^verbatim>\<open>__init__\<close> fills the fields.\<close>

definition BranchNode :: "string \<Rightarrow> addr option \<Rightarrow> branch_node" where
  "BranchNode nm p = \<lparr>name = nm, parent = p, children = [], commits = []\<rparr>"

text \<open>
  The document written to \<^verbatim>\<open>branches.json\<close>: \<^verbatim>\<open>Commit.to_dict\<close> gives the three fields
  of a commit, \<^verbatim>\<open>_serialize\<close> the name, the commits and the children of a node.
\<close>

datatype commit_dict = CommitDict string string pydict

datatype node_dict = NodeDict string "commit_dict list" "node_dict list"

fun to_dict :: "commit \<Rightarrow> commit_dict" where
  "to_dict c = CommitDict (cid c) (message c) (files c)"

text \<open>\<^verbatim>\<open>Commit(**c)\<close>\<close>

fun Commit :: "commit_dict \<Rightarrow> commit" where
  "Commit (CommitDict i msg fs) = \<lparr>cid = i, message = msg, files = fs\<rparr>"

datatype error = ValueError string | AttributeError string

text \<open>
  The state of a \<^verbatim>\<open>BranchManager\<close>: the heap of nodes with the next unused address,
  \<^verbatim>\<open>self.root\<close>, \<^verbatim>\<open>self.current\<close>, and the content of the file \<^verbatim>\<open>branches.json\<close>
  (\<open>None\<close> when the file does not exist).
\<close>

record manager =
  heap :: heap
  next_addr :: addr
  root :: addr
  current :: addr
  file_content :: "node_dict option"

text \<open>Creating an object: the node is stored at the next unused address.\<close>

definition new_node :: "manager \<Rightarrow> branch_node \<Rightarrow> addr \<times> manager" where
  "new_node m n =
     (next_addr m, m\<lparr>heap := (heap m)(next_addr m := n), next_addr := Suc (next_addr m)\<rparr>)"

section \<open>Loops over a list of children\<close>

text \<open>
  The traversals recurse through the heap, and nothing in the code bounds the recursion,
  so each returns an \<open>option\<close>: \<open>None\<close> when the call does not return. The loops of the
  source are the following combinators over such calls.

  \<^verbatim>\<open>for x in xs: r = f(x); if r: return r\<close>, the result being \<^verbatim>\<open>None\<close> when the loop ends.
\<close>

fun first_result :: "('a \<Rightarrow> 'b option option) \<Rightarrow> 'a list \<Rightarrow> 'b option option" where
  "first_result f [] = Some None"
| "first_result f (x # xs) =
     Option.bind (f x) (\<lambda>r. case r of Some y \<Rightarrow> Some (Some y) | None \<Rightarrow> first_result f xs)"

text \<open>
  \<^verbatim>\<open>for x in xs: if f(x): return True\<close> where \<open>f\<close> may change the state; the flag tells
  whether the loop returned.
\<close>

fun any_true :: "('a \<Rightarrow> 's \<Rightarrow> (bool \<times> 's) option) \<Rightarrow> 'a list \<Rightarrow> 's \<Rightarrow> (bool \<times> 's) option" where
  "any_true f [] s = Some (False, s)"
| "any_true f (x # xs) s =
     Option.bind (f x s) (\<lambda>r. if fst r then Some (True, snd r) else any_true f xs (snd r))"

text \<open>\<^verbatim>\<open>[f(x) for x in xs]\<close>\<close>

fun map_calls :: "('a \<Rightarrow> 'b option) \<Rightarrow> 'a list \<Rightarrow> 'b list option" where
  "map_calls f [] = Some []"
| "map_calls f (x # xs) =
     Option.bind (f x) (\<lambda>y. Option.bind (map_calls f xs) (\<lambda>ys. Some (y # ys)))"

lemma first_result_mono [partial_function_mono]:
  assumes "\<And>x. mono_option (\<lambda>f. B f x)"
  shows "mono_option (\<lambda>f. first_result (B f) xs)"
proof (induction xs)
  case Nil
  show ?case by (simp add: partial_function_mono)
next
  case (Cons x xs)
  have "mono_option (\<lambda>f. case r of None \<Rightarrow> first_result (B f) xs | Some y \<Rightarrow> Some (Some y))" for r
    by (cases r) (simp_all add: partial_function_mono Cons)
  then show ?case
    by simp (intro partial_function_mono assms)
qed

lemma any_true_mono [partial_function_mono]:
  assumes "\<And>x s. mono_option (\<lambda>f. B f x s)"
  shows "mono_option (\<lambda>f. any_true (B f) xs s)"
proof (induction xs arbitrary: s)
  case Nil
  show ?case by (simp add: partial_function_mono)
next
  case (Cons x xs)
  show ?case
    by simp (intro partial_function_mono assms Cons)
qed

lemma map_calls_mono [partial_function_mono]:
  assumes "\<And>x. mono_option (\<lambda>f. B f x)"
  shows "mono_option (\<lambda>f. map_calls (B f) xs)"
proof (induction xs)
  case Nil
  show ?case by (simp add: partial_function_mono)
next
  case (Cons x xs)
  show ?case
    by simp (intro partial_function_mono assms Cons)
qed

section \<open>Traversals\<close>

text \<open>\<^verbatim>\<open>_find_branch_postorder(node, name)\<close>: the children first, then the node itself.\<close>

partial_function (option) find_branch_postorder :: "heap \<Rightarrow> addr \<Rightarrow> string \<Rightarrow> addr option option" where
  "find_branch_postorder h node nm =
     Option.bind (first_result (\<lambda>child. find_branch_postorder h child nm) (children (h node)))
       (\<lambda>result. case result of
           Some r \<Rightarrow> Some (Some r)
         | None \<Rightarrow> if name (h node) = nm then Some (Some node) else Some None)"

text \<open>
  \<^verbatim>\<open>_checkout_inorder(node, name)\<close>: the node itself, then every child but the last in
  the loop, then the last child. A match assigns \<^verbatim>\<open>self.current\<close>; the result is the
  returned flag and the manager.
\<close>

partial_function (option) checkout_inorder :: "manager \<Rightarrow> addr \<Rightarrow> string \<Rightarrow> (bool \<times> manager) option" where
  "checkout_inorder m node nm =
     (if name (heap m node) = nm then Some (True, m\<lparr>current := node\<rparr>)
      else
        Option.bind
          (any_true
             (\<lambda>ic m'. if int (fst ic) < int (length (children (heap m' node))) - 1
                        then checkout_inorder m' (snd ic) nm
                        else Some (False, m'))
             (List.enumerate 0 (children (heap m node))) m)
          (\<lambda>r. if fst r then Some (True, snd r)
                else if children (heap (snd r) node) \<noteq> []
                  then checkout_inorder (snd r) (last (children (heap (snd r) node))) nm
                  else Some (False, snd r)))"

text \<open>
  \<^verbatim>\<open>_list_preorder(node, level)\<close>: the printed lines, the node's own line first.
\<close>

partial_function (option) list_preorder :: "heap \<Rightarrow> addr \<Rightarrow> nat \<Rightarrow> string list option" where
  "list_preorder h node level =
     Option.bind (map_calls (\<lambda>child. list_preorder h child (level + 1)) (children (h node)))
       (\<lambda>ls. Some ((concat (replicate level ''  '') @ name (h node)) # concat ls))"

text \<open>\<^verbatim>\<open>_serialize(node)\<close>\<close>

partial_function (option) serialize :: "heap \<Rightarrow> addr \<Rightarrow> node_dict option" where
  "serialize h node =
     Option.bind (map_calls (\<lambda>child. serialize h child) (children (h node)))
       (\<lambda>cs. Some (NodeDict (name (h node)) (map to_dict (commits (h node))) cs))"

declare find_branch_postorder.simps [code]
declare checkout_inorder.simps [code]
declare list_preorder.simps [code]
declare serialize.simps [code]

text \<open>
  \<^verbatim>\<open>_deserialize(data)\<close>: the node is created without a parent, then its commits,
  then its children, each by a recursive call.
\<close>

fun deserialize :: "node_dict \<Rightarrow> manager \<Rightarrow> addr \<times> manager"
  and deserialize_children :: "node_dict list \<Rightarrow> manager \<Rightarrow> addr list \<times> manager" where
  "deserialize (NodeDict nm cs kids) m =
     (case new_node m (BranchNode nm None) of (node, m1) \<Rightarrow>
        (case deserialize_children kids
                (m1\<lparr>heap := (heap m1)(node := (heap m1 node)\<lparr>commits := map Commit cs\<rparr>)\<rparr>) of
           (ks, m2) \<Rightarrow> (node, m2\<lparr>heap := (heap m2)(node := (heap m2 node)\<lparr>children := ks\<rparr>)\<rparr>)))"
| "deserialize_children [] m = ([], m)"
| "deserialize_children (d # ds) m =
     (case deserialize d m of (k, m1) \<Rightarrow>
        (case deserialize_children ds m1 of (ks, m2) \<Rightarrow> (k # ks, m2)))"

section \<open>The operations of \<^verbatim>\<open>BranchManager\<close>\<close>

text \<open>\<^verbatim>\<open>save()\<close>: the serialized tree replaces the content of the file.\<close>

definition save :: "manager \<Rightarrow> manager option" where
  "save m = Option.bind (serialize (heap m) (root m)) (\<lambda>data. Some (m\<lparr>file_content := Some data\<rparr>))"

text \<open>\<^verbatim>\<open>load()\<close>: a missing file leaves the manager as it is.\<close>

definition load :: "manager \<Rightarrow> manager" where
  "load m =
     (case file_content m of
        None \<Rightarrow> m
      | Some data \<Rightarrow> (case deserialize data m of (r, m1) \<Rightarrow> m1\<lparr>root := r, current := r\<rparr>))"

text \<open>
  \<^verbatim>\<open>BranchManager()\<close> in a new process, the file having the given content: the heap
  holds nothing but the new root \<^verbatim>\<open>main\<close>, then \<^verbatim>\<open>load()\<close>.
\<close>

definition BranchManager :: "node_dict option \<Rightarrow> manager" where
  "BranchManager fc =
     (case new_node \<lparr>heap = (\<lambda>_. BranchNode [] None), next_addr = 0, root = 0, current = 0,
                     file_content = fc\<rparr> (BranchNode ''main'' None) of
        (r, m) \<Rightarrow> load (m\<lparr>root := r, current := r\<rparr>))"

text \<open>
  The mutating operations return \<open>None\<close> when they do not return, \<open>Inl\<close> the exception
  they raise (every \<^verbatim>\<open>raise\<close> comes before the first assignment, so the manager is then
  as it was), and \<open>Inr\<close> the manager they leave.
\<close>

definition create_branch :: "manager \<Rightarrow> string \<Rightarrow> (error + manager) option" where
  "create_branch m nm =
     (if list_ex (\<lambda>child. name (heap m child) = nm) (children (heap m (current m)))
      then Some (Inl (ValueError (''Branch '' @ nm @ '' already exists'')))
      else (case new_node m (BranchNode nm (Some (current m))) of
              (new_branch, m1) \<Rightarrow>
                map_option Inr
                  (save (m1\<lparr>heap := (heap m1)(current m1 :=
                      (heap m1 (current m1))\<lparr>children := children (heap m1 (current m1)) @ [new_branch]\<rparr>)\<rparr>))))"

text \<open>
  \<^verbatim>\<open>branch.parent.children.remove(branch)\<close> raises \<^verbatim>\<open>AttributeError\<close> when
  \<^verbatim>\<open>branch.parent\<close> is \<^verbatim>\<open>None\<close>, and \<^verbatim>\<open>ValueError\<close> when the list does not hold the branch.
\<close>

definition delete_branch :: "manager \<Rightarrow> string \<Rightarrow> (error + manager) option" where
  "delete_branch m nm =
     Option.bind (find_branch_postorder (heap m) (root m) nm)
       (\<lambda>found. case found of
           None \<Rightarrow> Some (Inr m)
         | Some branch \<Rightarrow>
             if children (heap m branch) \<noteq> [] then Some (Inr m)
             else (case parent (heap m branch) of
                     None \<Rightarrow> Some (Inl (AttributeError ''NoneType object has no attribute children''))
                   | Some p \<Rightarrow>
                       if branch \<notin> set (children (heap m p))
                       then Some (Inl (ValueError ''list.remove(x): x not in list''))
                       else map_option Inr
                              (save (m\<lparr>heap := (heap m)(p :=
                                 (heap m p)\<lparr>children := remove1 branch (children (heap m p))\<rparr>)\<rparr>))))"

definition checkout :: "manager \<Rightarrow> string \<Rightarrow> (bool \<times> manager) option" where
  "checkout m nm =
     Option.bind (checkout_inorder m (root m) nm)
       (\<lambda>r. if fst r then map_option (\<lambda>m'. (True, m')) (save (snd r)) else Some (False, snd r))"

definition list_branches_preorder :: "manager \<Rightarrow> string list option" where
  "list_branches_preorder m = list_preorder (heap m) (root m) 0"

definition get_current_branch :: "manager \<Rightarrow> string" where
  "get_current_branch m = name (heap m (current m))"

section \<open>Merge\<close>

text \<open>The file table of the latest commit of a branch, empty when it has no commit.\<close>

definition latest_files :: "branch_node \<Rightarrow> pydict" where
  "latest_files n = (if commits n \<noteq> [] then files (last (commits n)) else [])"

text \<open>
  \<^verbatim>\<open>_calculate_diff(source, target)\<close>. The loop runs over
  \<^verbatim>\<open>set(source_files) | set(target_files)\<close>, and the order in which Python iterates a set
  of strings is not fixed by the program (it follows the hashes of the strings, which
  change from one process to the next). The order is therefore an input: \<open>order\<close> lists
  the paths as the loop meets them.
\<close>

definition iteration_of :: "string list \<Rightarrow> pydict \<Rightarrow> pydict \<Rightarrow> bool" where
  "iteration_of order source_files target_files =
     (distinct order \<and> set order = set (dict_keys source_files) \<union> set (dict_keys target_files))"

definition calculate_diff :: "string list \<Rightarrow> branch_node \<Rightarrow> branch_node \<Rightarrow> pydict" where
  "calculate_diff order source target =
     foldl (\<lambda>diff file.
              if dict_get (latest_files source) file \<noteq> dict_get (latest_files target) file
              then dict_setitem diff file
                     (py_or (dict_get (latest_files source) file) (dict_get (latest_files target) file))
              else diff)
       [] order"

text \<open>\<^verbatim>\<open>self.current.commits.append(c)\<close>\<close>

definition append_commit :: "manager \<Rightarrow> commit \<Rightarrow> manager" where
  "append_commit m c =
     m\<lparr>heap := (heap m)(current m := (heap m (current m))\<lparr>commits := commits (heap m (current m)) @ [c]\<rparr>)\<rparr>"

text \<open>\<^verbatim>\<open>_apply_merge(diff)\<close>\<close>

definition apply_merge :: "manager \<Rightarrow> pydict \<Rightarrow> manager" where
  "apply_merge m diff =
     append_commit m
       \<lparr>cid = commit_hash (dict_update (latest_files (heap m (current m))) diff),
        message = ''Merge commit'',
        files = dict_update (latest_files (heap m (current m))) diff\<rparr>"

text \<open>\<^verbatim>\<open>merge(source_name)\<close>, with the iteration order of the diff loop.\<close>

definition merge :: "string list \<Rightarrow> manager \<Rightarrow> string \<Rightarrow> (error + manager) option" where
  "merge order m source_name =
     Option.bind (find_branch_postorder (heap m) (root m) source_name)
       (\<lambda>found. case found of
           None \<Rightarrow> Some (Inl (ValueError ''Source branch not found''))
         | Some source \<Rightarrow>
             map_option Inr
               (save (append_commit
                        (apply_merge m (calculate_diff order (heap m source) (heap m (current m))))
                        \<lparr>cid = commit_hash (calculate_diff order (heap m source) (heap m (current m))),
                         message = ''Merge '' @ source_name @ '' into '' @ name (heap m (current m)),
                         files = calculate_diff order (heap m source) (heap m (current m))\<rparr>)))"

section \<open>Scenarios\<close>

text \<open>
  A branch whose latest commit tracks four paths, and a branch to merge it into: one path
  only in the source, one with an empty source content, one equal on both sides, one
  only in the target, and one with an empty source content that the target lacks.
\<close>

definition feature_node :: branch_node where
  "feature_node =
     \<lparr>name = ''feature'', parent = Some 0, children = [],
      commits = [\<lparr>cid = ''0000001'', message = ''seed'',
                  files = [(''a.txt'', PyStr ''1''), (''b.txt'', PyStr ''''),
                           (''c.txt'', PyStr ''same''), (''e.txt'', PyStr '''')]\<rparr>]\<rparr>"

definition main_node :: branch_node where
  "main_node =
     \<lparr>name = ''main'', parent = None, children = [1],
      commits = [\<lparr>cid = ''0000002'', message = ''seed'',
                  files = [(''b.txt'', PyStr ''old''), (''c.txt'', PyStr ''same''),
                           (''d.txt'', PyStr ''keep'')]\<rparr>]\<rparr>"

section \<open>The tree a heap holds\<close>

text \<open>
  The nodes reachable from an address form a tree when following \<^verbatim>\<open>children\<close> unfolds
  to a finite tree of addresses: \<open>tree_at h t\<close> says that \<open>t\<close> is that unfolding from its
  root. The managers the program builds always hold such a tree, and on it the traversals
  return.
\<close>

datatype atree = ANode addr "atree list"

fun root_of :: "atree \<Rightarrow> addr" where
  "root_of (ANode a ts) = a"

text \<open>The addresses of a tree, the root first, then the subtrees from left to right.\<close>

fun nodes :: "atree \<Rightarrow> addr list" where
  "nodes (ANode a ts) = a # concat (map nodes ts)"

text \<open>All subtrees of a tree, itself included.\<close>

fun subtrees :: "atree \<Rightarrow> atree list" where
  "subtrees (ANode a ts) = ANode a ts # concat (map subtrees ts)"

fun tree_at :: "heap \<Rightarrow> atree \<Rightarrow> bool" where
  "tree_at h (ANode a ts) = (children (h a) = map root_of ts \<and> list_all (tree_at h) ts)"

text \<open>Some node of the tree has the name.\<close>

definition has_match :: "heap \<Rightarrow> string \<Rightarrow> atree \<Rightarrow> bool" where
  "has_match h nm t = list_ex (\<lambda>a. name (h a) = nm) (nodes t)"

text \<open>
  The two searches on the tree itself, by recursion on the tree: they are what the
  searches on the heap compute where the heap holds the tree, and serve the proofs only.
\<close>

fun post_search :: "heap \<Rightarrow> string \<Rightarrow> atree \<Rightarrow> addr option"
  and post_search_list :: "heap \<Rightarrow> string \<Rightarrow> atree list \<Rightarrow> addr option" where
  "post_search h nm (ANode a ts) =
     (case post_search_list h nm ts of
        Some r \<Rightarrow> Some r
      | None \<Rightarrow> if name (h a) = nm then Some a else None)"
| "post_search_list h nm [] = None"
| "post_search_list h nm (t # ts) =
     (case post_search h nm t of Some r \<Rightarrow> Some r | None \<Rightarrow> post_search_list h nm ts)"

text \<open>
  A tree in which the name \<^verbatim>\<open>x\<close> occurs three times: \<^verbatim>\<open>main\<close> has the children \<^verbatim>\<open>a\<close>
  and \<^verbatim>\<open>x\<close>; \<^verbatim>\<open>a\<close> has the child \<^verbatim>\<open>x\<close>, which has the child \<^verbatim>\<open>x\<close>.
\<close>

definition nested_heap :: heap where
  "nested_heap = (\<lambda>_. BranchNode [] None)
     (0 := \<lparr>name = ''main'', parent = None, children = [1, 2], commits = []\<rparr>,
      1 := \<lparr>name = ''a'', parent = Some 0, children = [3], commits = []\<rparr>,
      2 := \<lparr>name = ''x'', parent = Some 0, children = [], commits = []\<rparr>,
      3 := \<lparr>name = ''x'', parent = Some 1, children = [4], commits = []\<rparr>,
      4 := \<lparr>name = ''x'', parent = Some 3, children = [], commits = []\<rparr>)"

definition nested_manager :: manager where
  "nested_manager = \<lparr>heap = nested_heap, next_addr = 5, root = 0, current = 0, file_content = None\<rparr>"

text \<open>
  An ordinary left-to-right depth-first search, as the specification words it: the node
  itself, then the children in order. It is the search \<^verbatim>\<open>_checkout_inorder\<close> is compared
  with, and is not part of the program.
\<close>

partial_function (option) plain_dfs :: "manager \<Rightarrow> addr \<Rightarrow> string \<Rightarrow> (bool \<times> manager) option" where
  "plain_dfs m node nm =
     (if name (heap m node) = nm then Some (True, m\<lparr>current := node\<rparr>)
      else any_true (\<lambda>child m'. plain_dfs m' child nm) (children (heap m node)) m)"

text \<open>
  The outcome of a search that takes the first node of the name in a list of nodes:
  found or not, and the manager with \<^verbatim>\<open>current\<close> moved to the node found.
\<close>

definition first_named :: "manager \<Rightarrow> string \<Rightarrow> addr list \<Rightarrow> bool \<times> manager" where
  "first_named m nm as =
     (case List.find (\<lambda>a. name (heap m a) = nm) as of
        None \<Rightarrow> (False, m)
      | Some a \<Rightarrow> (True, m\<lparr>current := a\<rparr>))"

text \<open>The document of the tree a heap holds: what \<^verbatim>\<open>_serialize\<close> computes on it.\<close>

fun doc_of :: "heap \<Rightarrow> atree \<Rightarrow> node_dict" where
  "doc_of h (ANode a ts) = NodeDict (name (h a)) (map to_dict (commits (h a))) (map (doc_of h) ts)"

text \<open>
  Two trees, each in its heap, have the same shape and content: the same name and the
  same commits (identifier, message and files) at the root, and the same number of
  children, which are pairwise the same in order.
\<close>

fun same_tree :: "heap \<Rightarrow> heap \<Rightarrow> atree \<Rightarrow> atree \<Rightarrow> bool" where
  "same_tree h h' (ANode a ts) (ANode b us) =
     (name (h a) = name (h' b) \<and> commits (h a) = commits (h' b) \<and> list_all2 (same_tree h h') ts us)"

text \<open>
  What a run of \<^verbatim>\<open>_deserialize\<close> leaves: the manager is extended (nothing that existed
  is changed), and the tree it built is made of new nodes, none of which has a parent.
\<close>

definition extends :: "manager \<Rightarrow> manager \<Rightarrow> bool" where
  "extends m m' \<longleftrightarrow>
     next_addr m \<le> next_addr m' \<and> (\<forall>x<next_addr m. heap m' x = heap m x)
     \<and> root m' = root m \<and> current m' = current m \<and> file_content m' = file_content m"

definition fresh_in :: "manager \<Rightarrow> manager \<Rightarrow> atree \<Rightarrow> bool" where
  "fresh_in m m' t \<longleftrightarrow>
     tree_at (heap m') t
     \<and> list_all (\<lambda>x. next_addr m \<le> x \<and> x < next_addr m' \<and> parent (heap m' x) = None) (nodes t)"

text \<open>
  A repository with the two branches of the scenario above, \<^verbatim>\<open>feature\<close> under \<^verbatim>\<open>main\<close>,
  with \<^verbatim>\<open>feature\<close> checked out.
\<close>

definition repo_heap :: heap where
  "repo_heap = (\<lambda>_. BranchNode [] None)(0 := main_node, 1 := feature_node)"

definition repo_manager :: manager where
  "repo_manager = \<lparr>heap = repo_heap, next_addr = 2, root = 0, current = 1, file_content = None\<rparr>"

text \<open>
  The tree after \<^verbatim>\<open>create_branch\<close>: a new leaf \<open>n\<close> as the last child of the node
  \<open>cur\<close>.
\<close>

fun graft :: "addr \<Rightarrow> addr \<Rightarrow> atree \<Rightarrow> atree" where
  "graft cur n (ANode a ts) =
     ANode a (map (graft cur n) ts @ (if a = cur then [ANode n []] else []))"

text \<open>
  The commits \<^verbatim>\<open>merge\<close> builds: the commit of \<^verbatim>\<open>_apply_merge\<close>, from the merged file table, and
  the commit built from the diff.
\<close>

definition merged_commit :: "string list \<Rightarrow> manager \<Rightarrow> addr \<Rightarrow> commit" where
  "merged_commit order m source =
     \<lparr>cid = commit_hash (dict_update (latest_files (heap m (current m)))
              (calculate_diff order (heap m source) (heap m (current m)))),
      message = ''Merge commit'',
      files = dict_update (latest_files (heap m (current m)))
                (calculate_diff order (heap m source) (heap m (current m)))\<rparr>"

definition marker_commit :: "string list \<Rightarrow> manager \<Rightarrow> string \<Rightarrow> addr \<Rightarrow> commit" where
  "marker_commit order m source_name source =
     \<lparr>cid = commit_hash (calculate_diff order (heap m source) (heap m (current m))),
      message = ''Merge '' @ source_name @ '' into '' @ name (heap m (current m)),
      files = calculate_diff order (heap m source) (heap m (current m))\<rparr>"

text \<open>The same repository with \<^verbatim>\<open>main\<close> checked out, and the messages of a log.\<close>

definition main_checked_out :: manager where
  "main_checked_out = repo_manager\<lparr>current := 0\<rparr>"

definition log_messages :: "manager \<Rightarrow> string list" where
  "log_messages m = map message (commits (heap m (current m)))"

text \<open>A branch whose latest commit tracks two files, and a branch without commits.\<close>

definition two_files_node :: branch_node where
  "two_files_node =
     \<lparr>name = ''feature'', parent = Some 0, children = [],
      commits = [\<lparr>cid = ''0000003'', message = ''seed'',
                  files = [(''a'', PyStr ''1''), (''b'', PyStr ''2'')]\<rparr>]\<rparr>"

definition empty_node :: branch_node where
  "empty_node = \<lparr>name = ''main'', parent = None, children = [1], commits = []\<rparr>"

section \<open>Sequences of operations\<close>

text \<open>
  A node is reachable from another one through the \<^verbatim>\<open>children\<close> lists.
\<close>

inductive reach :: "heap \<Rightarrow> addr \<Rightarrow> addr \<Rightarrow> bool" for h :: heap and a :: addr where
  reach_self: "reach h a a"
| reach_child: "reach h a b \<Longrightarrow> c \<in> set (children (h b)) \<Longrightarrow> reach h a c"

text \<open>
  The public operations, and the manager each leaves. An operation that raises leaves
  the manager as it was; \<open>None\<close> is an operation that does not return.
\<close>

datatype command =
    Branch string
  | BranchDelete string
  | BranchList
  | Checkout string
  | Merge string "string list"
  | Load

fun exec :: "command \<Rightarrow> manager \<Rightarrow> manager option" where
  "exec (Branch nm) m = map_option (case_sum (\<lambda>e. m) id) (create_branch m nm)"
| "exec (BranchDelete nm) m = map_option (case_sum (\<lambda>e. m) id) (delete_branch m nm)"
| "exec BranchList m = map_option (\<lambda>lines. m) (list_branches_preorder m)"
| "exec (Checkout nm) m = map_option snd (checkout m nm)"
| "exec (Merge nm order) m = map_option (case_sum (\<lambda>e. m) id) (merge order m nm)"
| "exec Load m = Some (load m)"

fun run :: "command list \<Rightarrow> manager \<Rightarrow> manager option" where
  "run [] m = Some m"
| "run (c # cs) m = Option.bind (exec c m) (run cs)"

text \<open>
  The operation is a \<^verbatim>\<open>delete_branch\<close> that finds the node \<^verbatim>\<open>current\<close> points at and
  detaches it; and a sequence of operations none of which does that.
\<close>

fun detaches_current :: "command \<Rightarrow> manager \<Rightarrow> bool" where
  "detaches_current (BranchDelete nm) m =
     (find_branch_postorder (heap m) (root m) nm = Some (Some (current m))
      \<and> children (heap m (current m)) = [] \<and> parent (heap m (current m)) \<noteq> None)"
| "detaches_current c m = False"

fun spares_current :: "command list \<Rightarrow> manager \<Rightarrow> bool" where
  "spares_current [] m = True"
| "spares_current (c # cs) m =
     (\<not> detaches_current c m
      \<and> (case exec c m of None \<Rightarrow> True | Some m' \<Rightarrow> spares_current cs m'))"

text \<open>
  Every reference held by the manager or by an allocated node is the address of an
  allocated node.
\<close>

definition closed_heap :: "manager \<Rightarrow> bool" where
  "closed_heap m \<longleftrightarrow>
     root m < next_addr m \<and> current m < next_addr m
     \<and> (\<forall>a<next_addr m. \<forall>c \<in> set (children (heap m a)). c < next_addr m)"

text \<open>
  The manager after creating the branch \<^verbatim>\<open>f\<close> in a new repository, checking it out and
  deleting it.
\<close>

definition detached_manager :: manager where
  "detached_manager =
     \<lparr>heap = (\<lambda>_. BranchNode [] None)
        (0 := \<lparr>name = ''main'', parent = None, children = [], commits = []\<rparr>,
         1 := \<lparr>name = ''f'', parent = Some 0, children = [], commits = []\<rparr>),
      next_addr = 2, root = 0, current = 1,
      file_content = Some (NodeDict ''main'' [] [])\<rparr>"

text \<open>A saved document: \<^verbatim>\<open>main\<close> with the child \<^verbatim>\<open>feature\<close>, without commits.\<close>

definition saved_repository :: node_dict where
  "saved_repository = NodeDict ''main'' [] [NodeDict ''feature'' [] []]"

section \<open>Dictionaries: lookup after assignment\<close>

lemma map_of_dict_setitem: "map_of (dict_setitem d k v) = (map_of d)(k \<mapsto> v)"
  by (induction d) (auto simp: fun_eq_iff)

lemma dict_get_setitem: "dict_get (dict_setitem d k v) k' = (if k' = k then v else dict_get d k')"
  by (simp add: dict_get_def map_of_dict_setitem)

lemma dict_keys_setitem: "set (dict_keys (dict_setitem d k v)) = insert k (set (dict_keys d))"
  by (simp add: dict_keys_def dom_map_of_conv_image_fst [symmetric] map_of_dict_setitem)

lemma distinct_dict_setitem: "distinct (dict_keys d) \<Longrightarrow> distinct (dict_keys (dict_setitem d k v))"
proof (induction d)
  case Nil
  then show ?case by (simp add: dict_keys_def)
next
  case (Cons kv d)
  have "set (dict_keys (dict_setitem d k v)) = insert k (set (dict_keys d))"
    by (rule dict_keys_setitem)
  with Cons show ?case
    by (cases kv) (auto simp: dict_keys_def)
qed

section \<open>The diff of two branches\<close>

lemma calculate_diff_fold:
  "map_of (foldl (\<lambda>diff file. if dict_get S file \<noteq> dict_get T file
              then dict_setitem diff file (py_or (dict_get S file) (dict_get T file))
              else diff) acc order) path =
   (if path \<in> set order \<and> dict_get S path \<noteq> dict_get T path
    then Some (py_or (dict_get S path) (dict_get T path)) else map_of acc path)"
  by (induction order arbitrary: acc) (auto simp: map_of_dict_setitem)

text \<open>
  C2. Let \<open>S\<close> be the file table of the source's latest commit and \<open>T\<close> that of the
  target's (empty when the branch has no commit). Whatever the order in which the loop
  meets the paths of \<open>S\<close> and \<open>T\<close>, the diff has an entry for exactly the paths of \<open>S\<close>
  or \<open>T\<close> whose values differ (\<^verbatim>\<open>S.get(path) != T.get(path)\<close>, a missing side being
  \<^verbatim>\<open>None\<close>); the entry is the source value when that is a non-empty string and the
  target value (\<^verbatim>\<open>T.get(path)\<close>) otherwise. Paths with equal values have no entry.
\<close>

theorem calculate_diff_spec:
  assumes "set order = set (dict_keys (latest_files source)) \<union> set (dict_keys (latest_files target))"
  shows "map_of (calculate_diff order source target) path =
     (if (path \<in> set (dict_keys (latest_files source)) \<or> path \<in> set (dict_keys (latest_files target)))
         \<and> dict_get (latest_files source) path \<noteq> dict_get (latest_files target) path
      then Some (if truthy (dict_get (latest_files source) path)
                 then dict_get (latest_files source) path
                 else dict_get (latest_files target) path)
      else None)"
  using assms by (simp add: calculate_diff_def calculate_diff_fold py_or_def)

theorem calculate_diff_spec_witness:
  "set [''e.txt'', ''a.txt'', ''d.txt'', ''b.txt'', ''c.txt''] =
     set (dict_keys (latest_files feature_node)) \<union> set (dict_keys (latest_files main_node))
   \<and> map_of (calculate_diff [''e.txt'', ''a.txt'', ''d.txt'', ''b.txt'', ''c.txt''] feature_node main_node)
         ''b.txt'' = Some (PyStr ''old'')"
proof -
  have keys: "set [''e.txt'', ''a.txt'', ''d.txt'', ''b.txt'', ''c.txt''] =
     set (dict_keys (latest_files feature_node)) \<union> set (dict_keys (latest_files main_node))"
    by (auto simp: feature_node_def main_node_def latest_files_def dict_keys_def)
  from calculate_diff_spec [OF keys, of "''b.txt''"] keys show ?thesis
    by (simp add: feature_node_def main_node_def latest_files_def dict_keys_def dict_get_def)
qed

text \<open>
  The whole diff of the scenario, in two iteration orders: the same entries, in the order
  in which the loop met them. The path \<^verbatim>\<open>e.txt\<close>, empty in the source and absent from
  the target, is mapped to \<^verbatim>\<open>None\<close>.
\<close>

lemma calculate_diff_example:
  "calculate_diff [''e.txt'', ''a.txt'', ''d.txt'', ''b.txt'', ''c.txt''] feature_node main_node =
     [(''e.txt'', PyNone), (''a.txt'', PyStr ''1''), (''d.txt'', PyStr ''keep''), (''b.txt'', PyStr ''old'')]"
  "calculate_diff [''a.txt'', ''b.txt'', ''c.txt'', ''d.txt'', ''e.txt''] feature_node main_node =
     [(''a.txt'', PyStr ''1''), (''b.txt'', PyStr ''old''), (''d.txt'', PyStr ''keep''), (''e.txt'', PyNone)]"
  by (simp_all add: calculate_diff_def feature_node_def main_node_def latest_files_def dict_get_def py_or_def)

section \<open>Postorder search\<close>

lemma find_branch_postorder_tree:
  "tree_at h t \<Longrightarrow> find_branch_postorder h (root_of t) nm = Some (post_search h nm t)"
  "list_all (tree_at h) ts \<Longrightarrow>
     first_result (\<lambda>child. find_branch_postorder h child nm) (map root_of ts) =
       Some (post_search_list h nm ts)"
proof (induction h nm t and h nm ts rule: post_search_post_search_list.induct)
  case (1 h nm a ts)
  then show ?case
    by (subst find_branch_postorder.simps) (simp split: option.splits)
next
  case (2 h nm)
  show ?case by simp
next
  case (3 h nm t ts)
  then show ?case by (simp split: option.splits)
qed

lemma post_search_None:
  "post_search h nm t = None \<longleftrightarrow> \<not> has_match h nm t"
  "post_search_list h nm ts = None \<longleftrightarrow> \<not> list_ex (has_match h nm) ts"
proof (induction h nm t and h nm ts rule: post_search_post_search_list.induct)
  case (1 h nm a ts)
  then show ?case
    by (auto simp: has_match_def list_ex_iff split: option.splits)
next
  case (2 h nm)
  show ?case by simp
next
  case (3 h nm t ts)
  then show ?case by (auto split: option.splits)
qed

lemma subtrees_self: "t \<in> set (subtrees t)"
  by (cases t) simp

lemma nodes_subtree: "s \<in> set (subtrees t) \<Longrightarrow> set (nodes s) \<subseteq> set (nodes t)"
proof (induction t)
  case (ANode a ts)
  show ?case
  proof (cases "s = ANode a ts")
    case True
    then show ?thesis by simp
  next
    case False
    with ANode.prems obtain t' where "t' \<in> set ts" "s \<in> set (subtrees t')" by auto
    with ANode.IH show ?thesis by fastforce
  qed
qed

lemma root_in_nodes: "root_of t \<in> set (nodes t)"
  by (cases t) simp

lemma post_search_Some:
  "post_search h nm t = Some r \<Longrightarrow>
     \<exists>s \<in> set (subtrees t). root_of s = r \<and> name (h r) = nm
        \<and> \<not> list_ex (\<lambda>d. name (h d) = nm) (tl (nodes s))"
  "post_search_list h nm ts = Some r \<Longrightarrow>
     \<exists>t \<in> set ts. \<exists>s \<in> set (subtrees t). root_of s = r \<and> name (h r) = nm
        \<and> \<not> list_ex (\<lambda>d. name (h d) = nm) (tl (nodes s))"
proof (induction h nm t and h nm ts arbitrary: r and r rule: post_search_post_search_list.induct)
  case (1 h nm a ts)
  show ?case
  proof (cases "post_search_list h nm ts")
    case None
    with "1.prems" have r: "r = a" "name (h a) = nm"
      by (auto split: if_splits)
    from None have "\<not> list_ex (has_match h nm) ts"
      by (simp add: post_search_None)
    then have "\<not> list_ex (\<lambda>d. name (h d) = nm) (tl (nodes (ANode a ts)))"
      by (auto simp: has_match_def list_ex_iff)
    with r show ?thesis
      by (intro bexI [of _ "ANode a ts"]) simp_all
  next
    case (Some r')
    with "1.prems" have "r' = r" by simp
    with Some "1.IH" show ?thesis by fastforce
  qed
next
  case (2 h nm)
  then show ?case by simp
next
  case (3 h nm t ts)
  show ?case
  proof (cases "post_search h nm t")
    case None
    with "3.prems" "3.IH"(2) show ?thesis by fastforce
  next
    case (Some r')
    with "3.prems" "3.IH"(1) show ?thesis by fastforce
  qed
qed

lemma post_search_list_skip:
  "\<not> list_ex (has_match h nm) pre \<Longrightarrow>
     post_search_list h nm (pre @ rest) = post_search_list h nm rest"
proof (induction pre)
  case Nil
  show ?case by simp
next
  case (Cons t pre)
  then have "post_search h nm t = None"
    by (simp add: post_search_None(1))
  with Cons show ?case by simp
qed

lemma post_search_in_nodes: "post_search h nm t = Some r \<Longrightarrow> r \<in> set (nodes t)"
proof -
  assume "post_search h nm t = Some r"
  then obtain s where "s \<in> set (subtrees t)" "root_of s = r"
    using post_search_Some(1) by blast
  then show ?thesis
    using nodes_subtree root_in_nodes by blast
qed

text \<open>
  C3. On a heap that holds a tree with root \<open>a\<close> and child subtrees \<open>ts\<close>, the postorder
  search from \<open>a\<close> returns, and:
  \<^item> when \<open>s\<close> is the first child subtree, in the order of the child list, that holds a
    node of the name, the result is the result of the search in \<open>s\<close>, a node of \<open>s\<close>;
  \<^item> the node's own name is compared only when no child subtree holds a match: then the
    result is the node itself if its name is the target, and nothing otherwise;
  \<^item> a returned node \<open>r\<close> has the name, and no node below it has: the search never
    returns an ancestor of another match, so a name repeated along a path resolves to its
    deepest occurrence.
\<close>

theorem find_branch_postorder_first_match:
  assumes "tree_at h (ANode a ts)"
  shows "(ts = pre @ s # post \<and> \<not> list_ex (has_match h nm) pre \<and> has_match h nm s \<longrightarrow>
            find_branch_postorder h a nm = find_branch_postorder h (root_of s) nm
            \<and> (\<exists>r \<in> set (nodes s). find_branch_postorder h a nm = Some (Some r)))
       \<and> (\<not> list_ex (has_match h nm) ts \<longrightarrow>
            find_branch_postorder h a nm = Some (if name (h a) = nm then Some a else None))
       \<and> (find_branch_postorder h a nm = Some (Some r) \<longrightarrow>
            (\<exists>s' \<in> set (subtrees (ANode a ts)). root_of s' = r \<and> name (h r) = nm
               \<and> \<not> list_ex (\<lambda>d. name (h d) = nm) (tl (nodes s'))))"
proof -
  have eq: "find_branch_postorder h a nm = Some (post_search h nm (ANode a ts))"
    using find_branch_postorder_tree(1) [OF assms] by simp
  have first: "find_branch_postorder h a nm = find_branch_postorder h (root_of s) nm
            \<and> (\<exists>r \<in> set (nodes s). find_branch_postorder h a nm = Some (Some r))"
    if ts: "ts = pre @ s # post" and pre: "\<not> list_ex (has_match h nm) pre" and s: "has_match h nm s"
  proof -
    from assms ts have "tree_at h s" by simp
    then have eq_s: "find_branch_postorder h (root_of s) nm = Some (post_search h nm s)"
      by (rule find_branch_postorder_tree(1))
    from s obtain r where r: "post_search h nm s = Some r"
      using post_search_None(1) [of h nm s] by (cases "post_search h nm s") auto
    have "post_search_list h nm ts = post_search_list h nm (s # post)"
      unfolding ts using pre by (rule post_search_list_skip)
    with r have "post_search h nm (ANode a ts) = Some r" by simp
    with eq eq_s r post_search_in_nodes [OF r] show ?thesis by simp
  qed
  have own: "find_branch_postorder h a nm = Some (if name (h a) = nm then Some a else None)"
    if "\<not> list_ex (has_match h nm) ts"
  proof -
    from that have "post_search_list h nm ts = None" by (simp add: post_search_None(2))
    with eq show ?thesis by simp
  qed
  have deepest: "\<exists>s' \<in> set (subtrees (ANode a ts)). root_of s' = r \<and> name (h r) = nm
               \<and> \<not> list_ex (\<lambda>d. name (h d) = nm) (tl (nodes s'))"
    if "find_branch_postorder h a nm = Some (Some r)"
  proof -
    from that eq have "post_search h nm (ANode a ts) = Some r" by simp
    then show ?thesis by (rule post_search_Some(1))
  qed
  from first own deepest show ?thesis by blast
qed
theorem find_branch_postorder_first_match_witness:
  "tree_at nested_heap (ANode 0 [ANode 1 [ANode 3 [ANode 4 []]], ANode 2 []])
   \<and> has_match nested_heap ''x'' (ANode 1 [ANode 3 [ANode 4 []]])
   \<and> find_branch_postorder nested_heap 0 ''x'' = Some (Some 4)
   \<and> find_branch_postorder nested_heap 0 ''x'' = find_branch_postorder nested_heap 1 ''x''
   \<and> \<not> list_ex (\<lambda>d. name (nested_heap d) = ''x'') (tl (nodes (ANode 4 [])))
   \<and> \<not> list_ex (has_match nested_heap ''main'') [ANode 1 [ANode 3 [ANode 4 []]], ANode 2 []]
   \<and> find_branch_postorder nested_heap 0 ''main'' = Some (Some 0)"
proof -
  have tree: "tree_at nested_heap (ANode 0 [ANode 1 [ANode 3 [ANode 4 []]], ANode 2 []])"
    by (simp add: nested_heap_def)
  have found: "find_branch_postorder nested_heap 0 ''x'' = Some (Some 4)"
    using find_branch_postorder_tree(1) [OF tree, of "''x''"] by (simp add: nested_heap_def)
  from find_branch_postorder_first_match
         [OF tree, of "[]" "ANode 1 [ANode 3 [ANode 4 []]]" "[ANode 2 []]" "''x''" 4]
       find_branch_postorder_first_match
         [OF tree, of "[]" "ANode 1 [ANode 3 [ANode 4 []]]" "[ANode 2 []]" "''main''" 0]
       tree found
  show ?thesis
    by (simp add: has_match_def nested_heap_def)
qed

section \<open>The search of checkout\<close>

lemma first_named_Nil: "first_named m nm [] = (False, m)"
  by (simp add: first_named_def)

lemma first_named_Cons:
  "first_named m nm (a # as) =
     (if name (heap m a) = nm then (True, m\<lparr>current := a\<rparr>) else first_named m nm as)"
  by (simp add: first_named_def)

lemma first_named_append:
  "first_named m nm (xs @ ys) =
     (if fst (first_named m nm xs) then first_named m nm xs else first_named m nm ys)"
  by (induction xs) (simp_all add: first_named_Nil first_named_Cons)

lemma first_named_unchanged: "\<not> fst (first_named m nm as) \<Longrightarrow> snd (first_named m nm as) = m"
  by (simp add: first_named_def split: option.splits)

lemma first_named_found: "fst (first_named m nm as) \<Longrightarrow> first_named m nm as = (True, snd (first_named m nm as))"
  by (simp add: first_named_def split: option.splits)

lemma any_true_append:
  "any_true f (xs @ ys) s =
     Option.bind (any_true f xs s) (\<lambda>r. if fst r then Some (True, snd r) else any_true f ys (snd r))"
proof (induction xs arbitrary: s)
  case Nil
  show ?case by simp
next
  case (Cons x xs)
  show ?case
    by (cases "f x s") (simp_all add: Cons)
qed

lemma any_true_tree:
  assumes "\<And>t m. t \<in> set ts \<Longrightarrow> tree_at (heap m) t \<Longrightarrow>
             f (root_of t) m = Some (first_named m nm (nodes t))"
    and "list_all (tree_at (heap m)) ts"
  shows "any_true f (map root_of ts) m = Some (first_named m nm (concat (map nodes ts)))"
  using assms
proof (induction ts)
  case Nil
  show ?case by (simp add: first_named_Nil)
next
  case (Cons t ts)
  from Cons.prems have call: "f (root_of t) m = Some (first_named m nm (nodes t))"
    by simp
  show ?case
  proof (cases "fst (first_named m nm (nodes t))")
    case True
    with call first_named_found [OF True] show ?thesis
      by (simp add: first_named_append)
  next
    case False
    from Cons have "any_true f (map root_of ts) m = Some (first_named m nm (concat (map nodes ts)))"
      by simp
    with call False first_named_unchanged [OF False] show ?thesis
      by (simp add: first_named_append)
  qed
qed

lemma plain_dfs_tree:
  "tree_at (heap m) t \<Longrightarrow> plain_dfs m (root_of t) nm = Some (first_named m nm (nodes t))"
proof (induction t arbitrary: m)
  case (ANode a ts)
  show ?case
  proof (cases "name (heap m a) = nm")
    case True
    then show ?thesis
      by (subst plain_dfs.simps) (simp add: first_named_Cons)
  next
    case False
    from ANode.prems have kids: "children (heap m a) = map root_of ts" "list_all (tree_at (heap m)) ts"
      by simp_all
    have "any_true (\<lambda>child m'. plain_dfs m' child nm) (map root_of ts) m =
            Some (first_named m nm (concat (map nodes ts)))"
      using ANode.IH kids(2) by (rule any_true_tree)
    with False kids(1) show ?thesis
      by (subst plain_dfs.simps) (simp add: first_named_Cons)
  qed
qed

text \<open>The loop of \<^verbatim>\<open>_checkout_inorder\<close> over children that are not the last.\<close>

lemma checkout_loop_tree:
  assumes "\<And>t m. t \<in> set ts \<Longrightarrow> tree_at (heap m) t \<Longrightarrow>
             checkout_inorder m (root_of t) nm = Some (first_named m nm (nodes t))"
    and "list_all (tree_at (heap m)) ts"
    and "k + length ts < length (children (heap m node))"
  shows "any_true
           (\<lambda>ic m'. if int (fst ic) < int (length (children (heap m' node))) - 1
                      then checkout_inorder m' (snd ic) nm
                      else Some (False, m'))
           (List.enumerate k (map root_of ts)) m =
         Some (first_named m nm (concat (map nodes ts)))"
  using assms
proof (induction ts arbitrary: k)
  case Nil
  show ?case by (simp add: first_named_Nil)
next
  case (Cons t ts)
  from Cons.prems have call: "checkout_inorder m (root_of t) nm = Some (first_named m nm (nodes t))"
    by simp
  from Cons.prems(3) have idx: "int k < int (length (children (heap m node))) - 1"
    by simp
  show ?case
  proof (cases "fst (first_named m nm (nodes t))")
    case True
    with call idx first_named_found [OF True] show ?thesis
      by (simp add: first_named_append)
  next
    case False
    from Cons.prems have "Suc k + length ts < length (children (heap m node))"
      by simp
    with Cons have "any_true
           (\<lambda>ic m'. if int (fst ic) < int (length (children (heap m' node))) - 1
                      then checkout_inorder m' (snd ic) nm
                      else Some (False, m'))
           (List.enumerate (Suc k) (map root_of ts)) m =
         Some (first_named m nm (concat (map nodes ts)))"
      by simp
    with call idx False first_named_unchanged [OF False] show ?thesis
      by (simp add: first_named_append)
  qed
qed

lemma checkout_inorder_tree:
  "tree_at (heap m) t \<Longrightarrow> checkout_inorder m (root_of t) nm = Some (first_named m nm (nodes t))"
proof (induction t arbitrary: m)
  case (ANode a ts)
  from ANode.prems have kids: "children (heap m a) = map root_of ts" "list_all (tree_at (heap m)) ts"
    by simp_all
  show ?case
  proof (cases "name (heap m a) = nm")
    case True
    then show ?thesis
      by (subst checkout_inorder.simps) (simp add: first_named_Cons)
  next
    case False
    show ?thesis
    proof (cases ts rule: rev_cases)
      case Nil
      with False kids show ?thesis
        by (subst checkout_inorder.simps) (simp add: first_named_Cons first_named_Nil)
    next
      case (snoc init l)
      have init: "list_all (tree_at (heap m)) init" and l: "tree_at (heap m) l"
        using kids(2) snoc by simp_all
      have len: "0 + length init < length (children (heap m a))"
        using kids(1) snoc by simp
      have IH: "\<And>t m. t \<in> set init \<Longrightarrow> tree_at (heap m) t \<Longrightarrow>
             checkout_inorder m (root_of t) nm = Some (first_named m nm (nodes t))"
        using ANode.IH snoc by simp
      have loop: "any_true
           (\<lambda>ic m'. if int (fst ic) < int (length (children (heap m' a))) - 1
                      then checkout_inorder m' (snd ic) nm
                      else Some (False, m'))
           (List.enumerate 0 (map root_of init)) m =
         Some (first_named m nm (concat (map nodes init)))"
        using IH init len by (rule checkout_loop_tree)
      have last_call: "checkout_inorder m (root_of l) nm = Some (first_named m nm (nodes l))"
        using ANode.IH snoc l by simp
      have lastc: "last (children (heap m a)) = root_of l" "children (heap m a) \<noteq> []"
        "length (children (heap m a)) = Suc (length init)"
        using kids(1) snoc by simp_all
      have enum: "List.enumerate 0 (children (heap m a)) =
                    List.enumerate 0 (map root_of init) @ [(length init, root_of l)]"
        using kids(1) snoc by (simp add: enumerate_append_eq)
      show ?thesis
      proof (cases "fst (first_named m nm (concat (map nodes init)))")
        case True
        with False loop lastc enum first_named_found [OF True] snoc show ?thesis
          by (subst checkout_inorder.simps)
             (simp add: any_true_append first_named_Cons first_named_append)
      next
        case found_no: False
        with False loop lastc enum first_named_unchanged [OF found_no] last_call snoc show ?thesis
          by (subst checkout_inorder.simps)
             (simp add: any_true_append first_named_Cons first_named_append)
      qed
    qed
  qed
qed

text \<open>
  C7. On a heap that holds a tree below the start node, the search of checkout, which
  defers the last child, and the ordinary left-to-right depth-first search both return,
  with the same flag and the same manager: one finds a node exactly when the other does,
  and they set \<^verbatim>\<open>current\<close> to the same node, the first node of the name in preorder.
\<close>

theorem checkout_inorder_plain_dfs:
  assumes "tree_at (heap m) t"
  shows "checkout_inorder m (root_of t) nm = plain_dfs m (root_of t) nm
       \<and> checkout_inorder m (root_of t) nm = Some (first_named m nm (nodes t))"
  using assms by (simp add: checkout_inorder_tree plain_dfs_tree)

theorem checkout_inorder_plain_dfs_witness:
  "tree_at (heap nested_manager) (ANode 0 [ANode 1 [ANode 3 [ANode 4 []]], ANode 2 []])
   \<and> checkout_inorder nested_manager 0 ''x'' = plain_dfs nested_manager 0 ''x''
   \<and> checkout_inorder nested_manager 0 ''x'' = Some (True, nested_manager\<lparr>current := 3\<rparr>)
   \<and> checkout_inorder nested_manager 0 ''y'' = plain_dfs nested_manager 0 ''y''
   \<and> checkout_inorder nested_manager 0 ''y'' = Some (False, nested_manager)"
proof -
  have h: "heap nested_manager = nested_heap"
    by (simp add: nested_manager_def)
  have tree: "tree_at (heap nested_manager) (ANode 0 [ANode 1 [ANode 3 [ANode 4 []]], ANode 2 []])"
    by (simp add: h nested_heap_def)
  have x: "first_named nested_manager ''x'' (nodes (ANode 0 [ANode 1 [ANode 3 [ANode 4 []]], ANode 2 []]))
             = (True, nested_manager\<lparr>current := 3\<rparr>)"
    by (simp add: first_named_def h nested_heap_def)
  have y: "first_named nested_manager ''y'' (nodes (ANode 0 [ANode 1 [ANode 3 [ANode 4 []]], ANode 2 []]))
             = (False, nested_manager)"
    by (simp add: first_named_def h nested_heap_def)
  from checkout_inorder_plain_dfs [OF tree, of "''x''"] checkout_inorder_plain_dfs [OF tree, of "''y''"]
  have "checkout_inorder nested_manager 0 ''x'' = plain_dfs nested_manager 0 ''x''"
    "checkout_inorder nested_manager 0 ''x'' = Some (True, nested_manager\<lparr>current := 3\<rparr>)"
    "checkout_inorder nested_manager 0 ''y'' = plain_dfs nested_manager 0 ''y''"
    "checkout_inorder nested_manager 0 ''y'' = Some (False, nested_manager)"
    unfolding x y by auto
  with tree show ?thesis by blast
qed

section \<open>Serialization\<close>

lemma serialize_tree:
  "tree_at h t \<Longrightarrow> serialize h (root_of t) = Some (doc_of h t)"
proof (induction t)
  case (ANode a ts)
  then have kids: "children (h a) = map root_of ts" "list_all (tree_at h) ts"
    by simp_all
  have "map_calls (\<lambda>child. serialize h child) (map root_of ts) = Some (map (doc_of h) ts)"
    using ANode.IH kids(2) by (induction ts) simp_all
  with kids(1) show ?case
    by (subst serialize.simps) simp
qed

lemma tree_at_cong:
  "(\<And>x. x \<in> set (nodes t) \<Longrightarrow> h' x = h x) \<Longrightarrow> tree_at h' t = tree_at h t"
proof (induction t)
  case (ANode a ts)
  have "tree_at h' s = tree_at h s" if "s \<in> set ts" for s
    using ANode.IH [OF that] ANode.prems that by auto
  then have "list_all (tree_at h') ts = list_all (tree_at h) ts"
    by (simp add: list_all_iff)
  with ANode.prems [of a] show ?case by simp
qed

lemma doc_of_cong:
  "(\<And>x. x \<in> set (nodes t) \<Longrightarrow> h' x = h x) \<Longrightarrow> doc_of h' t = doc_of h t"
proof (induction t)
  case (ANode a ts)
  have "doc_of h' s = doc_of h s" if "s \<in> set ts" for s
    using ANode.IH [OF that] ANode.prems that by auto
  then have "map (doc_of h') ts = map (doc_of h) ts"
    by simp
  with ANode.prems [of a] show ?case by simp
qed

lemma to_dict_Commit: "to_dict (Commit c) = c"
  by (cases c) simp

lemma Commit_to_dict: "Commit (to_dict c) = c"
  by simp

lemma extends_refl: "extends m m"
  by (simp add: extends_def)

lemma extends_trans: "extends m m1 \<Longrightarrow> extends m1 m2 \<Longrightarrow> extends m m2"
  by (auto simp: extends_def)

lemma fresh_in_extends:
  assumes "fresh_in m m1 t" "extends m1 m2"
  shows "fresh_in m m2 t"
proof -
  from assms have same: "heap m2 x = heap m1 x" if "x \<in> set (nodes t)" for x
    using that by (auto simp: fresh_in_def extends_def list_all_iff)
  then have "tree_at (heap m2) t = tree_at (heap m1) t"
    by (rule tree_at_cong)
  with assms same show ?thesis
    by (auto simp: fresh_in_def extends_def list_all_iff)
qed

lemma fresh_in_earlier:
  "fresh_in m1 m2 t \<Longrightarrow> next_addr m \<le> next_addr m1 \<Longrightarrow> fresh_in m m2 t"
  by (auto simp: fresh_in_def list_all_iff)

lemma deserialize_fresh:
  "deserialize d m = (a, m') \<Longrightarrow>
     extends m m' \<and> (\<exists>t. root_of t = a \<and> fresh_in m m' t \<and> doc_of (heap m') t = d)"
  "deserialize_children ds m = (ks, m') \<Longrightarrow>
     extends m m' \<and> (\<exists>ts. map root_of ts = ks \<and> list_all (fresh_in m m') ts
                        \<and> map (doc_of (heap m')) ts = ds)"
proof (induction d m and ds m arbitrary: a m' and ks m' rule: deserialize_deserialize_children.induct)
  case (1 nm cs kids m)
  define node where "node = next_addr m"
  define m1 where "m1 = m\<lparr>heap := (heap m)(node := BranchNode nm None), next_addr := Suc node\<rparr>"
  define m1' where "m1' = m1\<lparr>heap := (heap m1)(node := (heap m1 node)\<lparr>commits := map Commit cs\<rparr>)\<rparr>"
  obtain ks m2 where kids: "deserialize_children kids m1' = (ks, m2)"
    by (cases "deserialize_children kids m1'")
  have new: "new_node m (BranchNode nm None) = (node, m1)"
    by (simp add: new_node_def node_def m1_def)
  from "1.prems" new kids have res: "a = node"
    "m' = m2\<lparr>heap := (heap m2)(node := (heap m2 node)\<lparr>children := ks\<rparr>)\<rparr>"
    by (auto simp: m1'_def)
  from "1.IH" [OF new [symmetric] kids [unfolded m1'_def]] kids
  obtain ts where ext: "extends m1' m2" and ts: "map root_of ts = ks"
      "list_all (fresh_in m1' m2) ts" "map (doc_of (heap m2)) ts = kids"
    by (auto simp: m1'_def)
  have next1: "next_addr m1' = Suc node"
    by (simp add: m1'_def m1_def)
  from ext next1 have node2: "heap m2 node = heap m1' node" and le2: "Suc node \<le> next_addr m2"
    by (simp_all add: extends_def)
  have node1: "heap m1' node = \<lparr>name = nm, parent = None, children = [], commits = map Commit cs\<rparr>"
    by (simp add: m1'_def m1_def BranchNode_def)
  have other: "heap m' x = heap m2 x" if "x \<noteq> node" for x
    using that by (simp add: res)
  have above: "node < x" if "x \<in> set (nodes s)" "s \<in> set ts" for x s
    using that ts(2) next1 by (fastforce simp: fresh_in_def list_all_iff)
  have same: "heap m' x = heap m2 x" if "x \<in> set (nodes s)" "s \<in> set ts" for x s
    using above [OF that] other by simp
  have sub_tree: "tree_at (heap m') s" if "s \<in> set ts" for s
  proof -
    have "tree_at (heap m') s = tree_at (heap m2) s"
      using same that by (intro tree_at_cong) blast
    with ts(2) that show ?thesis by (simp add: fresh_in_def list_all_iff)
  qed
  have sub_doc: "doc_of (heap m') s = doc_of (heap m2) s" if "s \<in> set ts" for s
    using same that by (intro doc_of_cong) blast
  have tree: "tree_at (heap m') (ANode node ts)"
    using sub_tree ts(1) by (simp add: res list_all_iff)
  have doc: "doc_of (heap m') (ANode node ts) = NodeDict nm cs kids"
  proof -
    have "map (doc_of (heap m')) ts = kids"
      using sub_doc ts(3) by (metis map_eq_conv)
    moreover have "map to_dict (map Commit cs) = cs"
      by (induction cs) (simp_all add: to_dict_Commit del: to_dict.simps)
    ultimately show ?thesis
      by (simp add: res node2 node1 del: to_dict.simps)
  qed
  have fresh_kids: "next_addr m \<le> x \<and> x < next_addr m' \<and> parent (heap m' x) = None"
    if "x \<in> set (nodes s)" "s \<in> set ts" for x s
  proof -
    from ts(2) that have "next_addr m1' \<le> x \<and> x < next_addr m2 \<and> parent (heap m2 x) = None"
      by (fastforce simp: fresh_in_def list_all_iff)
    with same [OF that] next1 show ?thesis
      by (simp add: res node_def)
  qed
  have pn: "parent (heap m' node) = None"
    by (simp add: res node2 node1)
  have bn: "next_addr m \<le> node" "node < next_addr m'"
    using le2 by (simp_all add: res node_def)
  have "list_all (\<lambda>x. next_addr m \<le> x \<and> x < next_addr m' \<and> parent (heap m' x) = None)
          (nodes (ANode node ts))"
    using fresh_kids pn bn by (auto simp: list_all_iff)
  with tree have fresh: "fresh_in m m' (ANode node ts)"
    unfolding fresh_in_def by blast
  have "extends m m'"
    using ext next1 by (auto simp: extends_def res m1'_def m1_def node_def)
  with fresh doc res(1) show ?case
    by (intro conjI exI [of _ "ANode node ts"]) simp_all
next
  case (2 m)
  then show ?case by (simp add: extends_refl)
next
  case (3 d ds m)
  obtain k m1 where first: "deserialize d m = (k, m1)"
    by (cases "deserialize d m")
  obtain ks' m2 where rest: "deserialize_children ds m1 = (ks', m2)"
    by (cases "deserialize_children ds m1")
  from "3.prems" first rest have res: "ks = k # ks'" "m' = m2"
    by simp_all
  from "3.IH"(1) [OF first] obtain t where t: "extends m m1" "root_of t = k" "fresh_in m m1 t"
      "doc_of (heap m1) t = d"
    by blast
  from "3.IH"(2) [OF first [symmetric] rest] obtain ts where ts: "extends m1 m2"
      "map root_of ts = ks'" "list_all (fresh_in m1 m2) ts" "map (doc_of (heap m2)) ts = ds"
    by blast
  have t2: "fresh_in m m2 t"
    using t(3) ts(1) by (rule fresh_in_extends)
  have "heap m2 x = heap m1 x" if "x \<in> set (nodes t)" for x
    using that t(3) ts(1) by (auto simp: fresh_in_def extends_def list_all_iff)
  then have doc: "doc_of (heap m2) t = d"
    using t(4) doc_of_cong [of t "heap m2" "heap m1"] by simp
  have "list_all (fresh_in m m2) ts"
    using ts(3) t(1) by (auto simp: list_all_iff extends_def intro: fresh_in_earlier)
  with t2 doc t(2) ts(2,4) have built: "map root_of (t # ts) = ks \<and> list_all (fresh_in m m') (t # ts)
      \<and> map (doc_of (heap m')) (t # ts) = d # ds"
    by (simp add: res)
  have "extends m m'"
    using t(1) ts(1) res(2) extends_trans by blast
  with built show ?case
    by (intro conjI exI [of _ "t # ts"]) simp_all
qed

lemma to_dict_inj: "to_dict c = to_dict c' \<Longrightarrow> c = c'"
  by (metis Commit_to_dict)

lemma map_to_dict_inj: "map to_dict cs = map to_dict cs' \<Longrightarrow> cs = cs'"
proof (induction cs arbitrary: cs')
  case Nil
  then show ?case by simp
next
  case (Cons c cs)
  then obtain c' cs'' where "cs' = c' # cs''" by (cases cs') auto
  with Cons show ?case by (auto dest: to_dict_inj simp del: to_dict.simps)
qed

lemma same_tree_doc: "doc_of h t = doc_of h' t' \<Longrightarrow> same_tree h h' t t'"
proof (induction t arbitrary: t')
  case (ANode a ts)
  obtain b us where t': "t' = ANode b us" by (cases t')
  from ANode.prems t' have eq: "name (h a) = name (h' b)"
    "map to_dict (commits (h a)) = map to_dict (commits (h' b))"
    "map (doc_of h) ts = map (doc_of h') us"
    by simp_all
  from eq(3) have len: "length ts = length us"
    by (rule map_eq_imp_length_eq)
  have "same_tree h h' (ts ! i) (us ! i)" if "i < length ts" for i
  proof -
    from eq(3) that len have "doc_of h (ts ! i) = doc_of h' (us ! i)"
      by (metis nth_map)
    with that show ?thesis
      by (intro ANode.IH) simp_all
  qed
  with len have "list_all2 (same_tree h h') ts us"
    by (simp add: list_all2_conv_all_nth)
  with eq(1) map_to_dict_inj [OF eq(2)] t' show ?case by simp
qed

lemma save_tree:
  "tree_at (heap m) t \<Longrightarrow> root_of t = root m \<Longrightarrow>
     save m = Some (m\<lparr>file_content := Some (doc_of (heap m) t)\<rparr>)"
  using serialize_tree [of "heap m" t] by (simp add: save_def)

lemma load_tree:
  assumes "file_content m = Some data"
  shows "\<exists>t. root_of t = root (load m) \<and> fresh_in m (load m) t \<and> doc_of (heap (load m)) t = data
             \<and> current (load m) = root (load m)"
proof -
  obtain r m2 where d: "deserialize data m = (r, m2)"
    by (cases "deserialize data m")
  from deserialize_fresh(1) [OF d] obtain t where t: "root_of t = r" "fresh_in m m2 t"
      "doc_of (heap m2) t = data"
    by blast
  from assms d have l: "load m = m2\<lparr>root := r, current := r\<rparr>"
    by (simp add: load_def)
  from t show ?thesis
    unfolding l by (intro exI [of _ t]) (simp add: fresh_in_def)
qed

text \<open>
  C9. When the heap holds a tree \<open>t\<close> below the root, \<^verbatim>\<open>save\<close> returns, and loading the
  saved document, in the same manager or in a new process, gives a tree of the same
  shape and content (the same names, the same children in the same order, the same commit
  identifiers, messages and files), with \<^verbatim>\<open>current\<close> at the new root.
\<close>

theorem serialize_deserialize_roundtrip:
  assumes "tree_at (heap m) t" "root_of t = root m"
  shows "\<exists>m1. save m = Some m1
            \<and> (\<exists>t'. root_of t' = root (load m1) \<and> tree_at (heap (load m1)) t'
                     \<and> same_tree (heap m) (heap (load m1)) t t')
            \<and> current (load m1) = root (load m1)
            \<and> (\<exists>t'. root_of t' = root (BranchManager (file_content m1))
                     \<and> tree_at (heap (BranchManager (file_content m1))) t'
                     \<and> same_tree (heap m) (heap (BranchManager (file_content m1))) t t')
            \<and> current (BranchManager (file_content m1)) = root (BranchManager (file_content m1))"
proof -
  define m1 where "m1 = m\<lparr>file_content := Some (doc_of (heap m) t)\<rparr>"
  have saved: "save m = Some m1"
    unfolding m1_def using assms by (rule save_tree)
  have fc: "file_content m1 = Some (doc_of (heap m) t)"
    by (simp add: m1_def)
  from load_tree [OF fc] obtain t' where t': "root_of t' = root (load m1)"
      "fresh_in m1 (load m1) t'" "doc_of (heap (load m1)) t' = doc_of (heap m) t"
      "current (load m1) = root (load m1)"
    by blast
  from t'(3) have same: "same_tree (heap m) (heap (load m1)) t t'"
    by (intro same_tree_doc) simp
  define m0 where "m0 = \<lparr>heap = (\<lambda>_. BranchNode [] None)(0 := BranchNode ''main'' None),
      next_addr = Suc 0, root = 0, current = 0, file_content = file_content m1\<rparr>"
  have new: "BranchManager (file_content m1) = load m0"
    by (simp add: BranchManager_def new_node_def m0_def)
  have fc0: "file_content m0 = Some (doc_of (heap m) t)"
    by (simp add: m0_def fc)
  from load_tree [OF fc0] obtain t0 where t0: "root_of t0 = root (load m0)"
      "fresh_in m0 (load m0) t0" "doc_of (heap (load m0)) t0 = doc_of (heap m) t"
      "current (load m0) = root (load m0)"
    by blast
  from t0(3) have same0: "same_tree (heap m) (heap (load m0)) t t0"
    by (intro same_tree_doc) simp
  have A: "\<exists>t'. root_of t' = root (load m1) \<and> tree_at (heap (load m1)) t'
                     \<and> same_tree (heap m) (heap (load m1)) t t'"
    using t' same by (intro exI [of _ t']) (simp add: fresh_in_def)
  have B: "\<exists>t'. root_of t' = root (BranchManager (file_content m1))
                     \<and> tree_at (heap (BranchManager (file_content m1))) t'
                     \<and> same_tree (heap m) (heap (BranchManager (file_content m1))) t t'"
    unfolding new using t0 same0 by (intro exI [of _ t0]) (simp add: fresh_in_def)
  have C: "current (BranchManager (file_content m1)) = root (BranchManager (file_content m1))"
    unfolding new by (rule t0(4))
  from saved A t'(4) B C show ?thesis by blast
qed

lemma repo_tree: "tree_at (heap repo_manager) (ANode 0 [ANode 1 []])"
  by (simp add: repo_manager_def repo_heap_def main_node_def feature_node_def)

theorem serialize_deserialize_roundtrip_witness:
  "tree_at (heap repo_manager) (ANode 0 [ANode 1 []])
   \<and> root_of (ANode 0 [ANode 1 []]) = root repo_manager
   \<and> (\<exists>m1. save repo_manager = Some m1
          \<and> (\<exists>t'. root_of t' = root (load m1) \<and> tree_at (heap (load m1)) t'
                   \<and> same_tree (heap repo_manager) (heap (load m1)) (ANode 0 [ANode 1 []]) t')
          \<and> current (load m1) = root (load m1)
          \<and> (\<exists>t'. root_of t' = root (BranchManager (file_content m1))
                   \<and> tree_at (heap (BranchManager (file_content m1))) t'
                   \<and> same_tree (heap repo_manager) (heap (BranchManager (file_content m1)))
                        (ANode 0 [ANode 1 []]) t')
          \<and> current (BranchManager (file_content m1)) = root (BranchManager (file_content m1)))"
proof -
  have rt: "root_of (ANode 0 [ANode 1 []]) = root repo_manager"
    by (simp add: repo_manager_def)
  from serialize_deserialize_roundtrip [OF repo_tree rt] repo_tree rt show ?thesis
    by blast
qed

text \<open>
  The round trip of the scenario, computed: the saved document, and the manager a new
  process builds from it. The new root is the node at address 1 (address 0 holds the
  \<^verbatim>\<open>main\<close> that \<^verbatim>\<open>__init__\<close> created first), \<^verbatim>\<open>current\<close> is the root although
  \<^verbatim>\<open>feature\<close> was checked out, and the node of \<^verbatim>\<open>feature\<close> has no parent.
\<close>

lemma save_repo:
  "save repo_manager = Some (repo_manager\<lparr>file_content := Some
     (NodeDict ''main''
        [CommitDict ''0000002'' ''seed''
           [(''b.txt'', PyStr ''old''), (''c.txt'', PyStr ''same''), (''d.txt'', PyStr ''keep'')]]
        [NodeDict ''feature''
           [CommitDict ''0000001'' ''seed''
              [(''a.txt'', PyStr ''1''), (''b.txt'', PyStr ''''), (''c.txt'', PyStr ''same''),
               (''e.txt'', PyStr '''')]]
           []])\<rparr>)"
proof -
  have rt: "root_of (ANode 0 [ANode 1 []]) = root repo_manager"
    by (simp add: repo_manager_def)
  show ?thesis
    unfolding save_tree [OF repo_tree rt]
    by (simp add: repo_manager_def repo_heap_def main_node_def feature_node_def)
qed

section \<open>Merge\<close>

lemma tree_at_children:
  "(\<And>x. x \<in> set (nodes t) \<Longrightarrow> children (h' x) = children (h x)) \<Longrightarrow> tree_at h' t = tree_at h t"
proof (induction t)
  case (ANode a ts)
  have "tree_at h' s = tree_at h s" if "s \<in> set ts" for s
    using ANode.IH [OF that] ANode.prems that by auto
  then have "list_all (tree_at h') ts = list_all (tree_at h) ts"
    by (simp add: list_all_iff)
  with ANode.prems [of a] show ?case by simp
qed

lemma save_fields:
  "save m = Some m' \<Longrightarrow>
     heap m' = heap m \<and> next_addr m' = next_addr m \<and> root m' = root m \<and> current m' = current m"
  by (auto simp: save_def split: Option.bind_splits)

text \<open>
  What \<^verbatim>\<open>merge\<close> leaves when the source is found: the two commits at the end of the log of
  the current branch, and the saved document.
\<close>

lemma merge_found:
  assumes found: "find_branch_postorder (heap m) (root m) source_name = Some (Some source)"
    and tree: "tree_at (heap m) t" "root_of t = root m"
  shows "\<exists>data. merge order m source_name =
           Some (Inr (m\<lparr>heap := (heap m)(current m := (heap m (current m))
                          \<lparr>commits := commits (heap m (current m))
                               @ [merged_commit order m source,
                                  marker_commit order m source_name source]\<rparr>),
                        file_content := Some data\<rparr>))"
proof -
  define h' where "h' = (heap m)(current m := (heap m (current m))
                          \<lparr>commits := commits (heap m (current m))
                               @ [merged_commit order m source,
                                  marker_commit order m source_name source]\<rparr>)"
  have "children (h' x) = children (heap m x)" for x
    by (simp add: h'_def)
  then have "tree_at h' t = tree_at (heap m) t"
    by (intro tree_at_children) simp
  with tree have t': "tree_at (heap (m\<lparr>heap := h'\<rparr>)) t" "root_of t = root (m\<lparr>heap := h'\<rparr>)"
    by simp_all
  have built: "append_commit (apply_merge m (calculate_diff order (heap m source) (heap m (current m))))
          (marker_commit order m source_name source) = m\<lparr>heap := h'\<rparr>"
    by (simp add: append_commit_def apply_merge_def h'_def merged_commit_def)
  have saved: "save (m\<lparr>heap := h'\<rparr>) = Some (m\<lparr>heap := h', file_content := Some (doc_of h' t)\<rparr>)"
    using save_tree [OF t'] by simp
  have "merge order m source_name =
          map_option Inr (save (append_commit
             (apply_merge m (calculate_diff order (heap m source) (heap m (current m))))
             (marker_commit order m source_name source)))"
    unfolding merge_def marker_commit_def using found by simp
  also have "\<dots> = Some (Inr (m\<lparr>heap := h', file_content := Some (doc_of h' t)\<rparr>))"
    unfolding built saved by simp
  finally show ?thesis
    unfolding h'_def by blast
qed

lemma merge_not_found:
  "find_branch_postorder (heap m) (root m) source_name = Some None \<Longrightarrow>
     merge order m source_name = Some (Inl (ValueError ''Source branch not found''))"
  by (simp add: merge_def)

text \<open>
  C1, as the code has it. When the source branch is found (and the heap holds a tree
  below the root, so that \<^verbatim>\<open>save\<close> returns), \<^verbatim>\<open>merge\<close> appends two commits to the log of
  the current branch, and changes no other node: first the commit built from the full
  merged file table, with the message \<^verbatim>\<open>Merge commit\<close>, then the commit built from the
  diff, with the message \<^verbatim>\<open>Merge <source> into <current>\<close>.
\<close>

theorem merge_appends_two_commits:
  assumes "find_branch_postorder (heap m) (root m) source_name = Some (Some source)"
    and "tree_at (heap m) t" "root_of t = root m"
  shows "\<exists>m'. merge order m source_name = Some (Inr m')
          \<and> current m' = current m \<and> root m' = root m
          \<and> commits (heap m' (current m)) =
               commits (heap m (current m))
               @ [\<lparr>cid = commit_hash (dict_update (latest_files (heap m (current m)))
                            (calculate_diff order (heap m source) (heap m (current m)))),
                   message = ''Merge commit'',
                   files = dict_update (latest_files (heap m (current m)))
                            (calculate_diff order (heap m source) (heap m (current m)))\<rparr>,
                  \<lparr>cid = commit_hash (calculate_diff order (heap m source) (heap m (current m))),
                   message = ''Merge '' @ source_name @ '' into '' @ name (heap m (current m)),
                   files = calculate_diff order (heap m source) (heap m (current m))\<rparr>]
          \<and> name (heap m' (current m)) = name (heap m (current m))
          \<and> children (heap m' (current m)) = children (heap m (current m))
          \<and> (\<forall>b. b \<noteq> current m \<longrightarrow> heap m' b = heap m b)"
proof -
  from merge_found [OF assms, of order] obtain data where
    "merge order m source_name =
           Some (Inr (m\<lparr>heap := (heap m)(current m := (heap m (current m))
                          \<lparr>commits := commits (heap m (current m))
                               @ [merged_commit order m source,
                                  marker_commit order m source_name source]\<rparr>),
                        file_content := Some data\<rparr>))"
    by blast
  then show ?thesis
    by (simp add: merged_commit_def marker_commit_def)
qed

lemma main_checked_out_tree:
  "tree_at (heap main_checked_out) (ANode 0 [ANode 1 []])"
  "root_of (ANode 0 [ANode 1 []]) = root main_checked_out"
  by (simp_all add: main_checked_out_def repo_manager_def repo_heap_def main_node_def feature_node_def)

lemma main_checked_out_feature:
  "find_branch_postorder (heap main_checked_out) (root main_checked_out) ''feature'' = Some (Some 1)"
proof -
  have "find_branch_postorder (heap main_checked_out) (root_of (ANode 0 [ANode 1 []])) ''feature'' =
          Some (post_search (heap main_checked_out) ''feature'' (ANode 0 [ANode 1 []]))"
    using main_checked_out_tree(1) by (rule find_branch_postorder_tree(1))
  then show ?thesis
    by (simp add: main_checked_out_def repo_manager_def repo_heap_def main_node_def feature_node_def)
qed

theorem merge_appends_two_commits_witness:
  "find_branch_postorder (heap main_checked_out) (root main_checked_out) ''feature'' = Some (Some 1)
   \<and> tree_at (heap main_checked_out) (ANode 0 [ANode 1 []])
   \<and> root_of (ANode 0 [ANode 1 []]) = root main_checked_out
   \<and> (\<exists>m'. merge [''a.txt'', ''b.txt'', ''c.txt'', ''d.txt'', ''e.txt''] main_checked_out ''feature''
                = Some (Inr m')
          \<and> log_messages m' = [''seed'', ''Merge commit'', ''Merge feature into main''])"
proof -
  from merge_appends_two_commits
         [OF main_checked_out_feature main_checked_out_tree,
          of "[''a.txt'', ''b.txt'', ''c.txt'', ''d.txt'', ''e.txt'']"]
  obtain m' where m': "merge [''a.txt'', ''b.txt'', ''c.txt'', ''d.txt'', ''e.txt''] main_checked_out ''feature''
                = Some (Inr m')" "current m' = current main_checked_out"
      "map message (commits (heap m' (current main_checked_out))) =
         map message (commits (heap main_checked_out (current main_checked_out)))
           @ [''Merge commit'', ''Merge '' @ ''feature'' @ '' into '' @ name (heap main_checked_out (current main_checked_out))]"
    by auto
  have "log_messages m' = [''seed'', ''Merge commit'', ''Merge feature into main'']"
    unfolding log_messages_def m'(2) m'(3)
    by (simp add: main_checked_out_def repo_manager_def repo_heap_def main_node_def)
  with m'(1) main_checked_out_feature main_checked_out_tree show ?thesis
    by blast
qed

text \<open>
  The claim as the specification states it fails on the scenario: after the merge, the
  log of \<^verbatim>\<open>main\<close> has two commits more than before, and the last one is the marker
  commit.
\<close>

theorem merge_single_commit_counterexample:
  "map_option (map_sum id log_messages)
     (merge [''a.txt'', ''b.txt'', ''c.txt'', ''d.txt'', ''e.txt''] main_checked_out ''feature'')
     = Some (Inr [''seed'', ''Merge commit'', ''Merge feature into main''])
   \<and> log_messages main_checked_out = [''seed'']"
proof -
  from merge_found [OF main_checked_out_feature main_checked_out_tree,
          of "[''a.txt'', ''b.txt'', ''c.txt'', ''d.txt'', ''e.txt'']"]
  obtain data where "merge [''a.txt'', ''b.txt'', ''c.txt'', ''d.txt'', ''e.txt''] main_checked_out ''feature''
      = Some (Inr (main_checked_out\<lparr>heap := (heap main_checked_out)(current main_checked_out :=
                      (heap main_checked_out (current main_checked_out))
                          \<lparr>commits := commits (heap main_checked_out (current main_checked_out))
                               @ [merged_commit [''a.txt'', ''b.txt'', ''c.txt'', ''d.txt'', ''e.txt''] main_checked_out 1,
                                  marker_commit [''a.txt'', ''b.txt'', ''c.txt'', ''d.txt'', ''e.txt''] main_checked_out ''feature'' 1]\<rparr>),
                        file_content := Some data\<rparr>))"
    by blast
  then show ?thesis
    by (simp add: log_messages_def merged_commit_def marker_commit_def
          main_checked_out_def repo_manager_def repo_heap_def main_node_def)
qed

section \<open>Commit identifiers\<close>

lemma hex_digit_range: "hex_digit n \<in> set ''0123456789abcdef''"
proof -
  have "n mod 16 < length ''0123456789abcdef''" by simp
  then show ?thesis
    unfolding hex_digit_def by (rule nth_mem)
qed

lemma hex_word_props: "length (hex_word w) = 8" "set (hex_word w) \<subseteq> set ''0123456789abcdef''"
proof -
  show "length (hex_word w) = 8"
    by (simp add: hex_word_def)
  have eq: "set (hex_word w) = (\<lambda>i. hex_digit (w div 16 ^ i)) ` set [7, 6, 5, 4, 3, 2, 1, 0]"
    unfolding hex_word_def by (rule set_map)
  show "set (hex_word w) \<subseteq> set ''0123456789abcdef''"
    unfolding eq by (rule image_subsetI) (rule hex_digit_range)
qed

lemma hexdigest_props:
  "length (hexdigest s) = 40" "set (hexdigest s) \<subseteq> set ''0123456789abcdef''"
proof -
  obtain a b c d e where s: "s = (a, b, c, d, e)" by (cases s)
  show "length (hexdigest s) = 40"
    by (simp add: s hex_word_props(1))
  show "set (hexdigest s) \<subseteq> set ''0123456789abcdef''"
    using hex_word_props(2) [of a] hex_word_props(2) [of b] hex_word_props(2) [of c]
      hex_word_props(2) [of d] hex_word_props(2) [of e]
    by (simp add: s del: set_simps)
qed

lemma commit_hash_props:
  "length (commit_hash d) = 7" "set (commit_hash d) \<subseteq> set ''0123456789abcdef''"
proof -
  show "length (commit_hash d) = 7"
    by (simp add: commit_hash_def hexdigest_props(1))
  have "set (commit_hash d) \<subseteq> set (hexdigest (sha1 (encode (str_dict d))))"
    unfolding commit_hash_def by (rule set_take_subset)
  with hexdigest_props(2) show "set (commit_hash d) \<subseteq> set ''0123456789abcdef''"
    by (rule subset_trans [rotated])
qed

text \<open>
  C10, as the code has it. The identifier of each of the two commits that \<^verbatim>\<open>merge\<close>
  appends is the first 7 characters of the hexadecimal SHA-1 digest of the UTF-8 bytes of
  \<^verbatim>\<open>str\<close> of the commit's file table, that is of the rendering
  \<^verbatim>\<open>{key: value, ...}\<close> of the items in their insertion order; it is made of 7
  hexadecimal digits.
\<close>

theorem merge_commit_ids:
  assumes "find_branch_postorder (heap m) (root m) source_name = Some (Some source)"
    and "tree_at (heap m) t" "root_of t = root m"
  shows "\<exists>m' c1 c2. merge order m source_name = Some (Inr m')
          \<and> commits (heap m' (current m)) = commits (heap m (current m)) @ [c1, c2]
          \<and> cid c1 = take 7 (hexdigest (sha1 (encode (str_dict (files c1)))))
          \<and> cid c2 = take 7 (hexdigest (sha1 (encode (str_dict (files c2)))))
          \<and> str_dict (files c1) =
               ''{'' @ join_items (map (\<lambda>kv. repr_str (fst kv) @ '': '' @ repr_val (snd kv)) (files c1)) @ ''}''
          \<and> length (cid c1) = 7 \<and> set (cid c1) \<subseteq> set ''0123456789abcdef''
          \<and> length (cid c2) = 7 \<and> set (cid c2) \<subseteq> set ''0123456789abcdef''"
proof -
  define c1 where "c1 = merged_commit order m source"
  define c2 where "c2 = marker_commit order m source_name source"
  from merge_found [OF assms, of order] obtain data where
    "merge order m source_name =
           Some (Inr (m\<lparr>heap := (heap m)(current m := (heap m (current m))
                          \<lparr>commits := commits (heap m (current m)) @ [c1, c2]\<rparr>),
                        file_content := Some data\<rparr>))"
    unfolding c1_def c2_def by blast
  then obtain m' where m': "merge order m source_name = Some (Inr m')"
    "commits (heap m' (current m)) = commits (heap m (current m)) @ [c1, c2]"
    by simp
  have ids: "cid c1 = take 7 (hexdigest (sha1 (encode (str_dict (files c1)))))"
    "cid c2 = take 7 (hexdigest (sha1 (encode (str_dict (files c2)))))"
    by (simp_all add: c1_def c2_def merged_commit_def marker_commit_def commit_hash_def)
  have str: "str_dict (files c1) =
      ''{'' @ join_items (map (\<lambda>kv. repr_str (fst kv) @ '': '' @ repr_val (snd kv)) (files c1)) @ ''}''"
    by (rule str_dict_def)
  have "cid c1 = commit_hash (files c1)" "cid c2 = commit_hash (files c2)"
    by (simp_all add: c1_def c2_def merged_commit_def marker_commit_def)
  then have props: "length (cid c1) = 7" "set (cid c1) \<subseteq> set ''0123456789abcdef''"
    "length (cid c2) = 7" "set (cid c2) \<subseteq> set ''0123456789abcdef''"
    using commit_hash_props by metis+
  from m' ids str props show ?thesis
    by blast
qed

theorem merge_commit_ids_witness:
  "find_branch_postorder (heap main_checked_out) (root main_checked_out) ''feature'' = Some (Some 1)
   \<and> tree_at (heap main_checked_out) (ANode 0 [ANode 1 []])
   \<and> root_of (ANode 0 [ANode 1 []]) = root main_checked_out
   \<and> (\<exists>m' c1 c2. merge [''a.txt'', ''b.txt'', ''c.txt'', ''d.txt'', ''e.txt''] main_checked_out ''feature''
                = Some (Inr m')
          \<and> commits (heap m' (current main_checked_out)) =
              commits (heap main_checked_out (current main_checked_out)) @ [c1, c2]
          \<and> cid c1 = take 7 (hexdigest (sha1 (encode (str_dict (files c1)))))
          \<and> cid c2 = take 7 (hexdigest (sha1 (encode (str_dict (files c2)))))
          \<and> length (cid c1) = 7 \<and> length (cid c2) = 7)"
proof -
  from merge_commit_ids
         [OF main_checked_out_feature main_checked_out_tree,
          of "[''a.txt'', ''b.txt'', ''c.txt'', ''d.txt'', ''e.txt'']"]
  have "\<exists>m' c1 c2. merge [''a.txt'', ''b.txt'', ''c.txt'', ''d.txt'', ''e.txt''] main_checked_out ''feature''
                = Some (Inr m')
          \<and> commits (heap m' (current main_checked_out)) =
              commits (heap main_checked_out (current main_checked_out)) @ [c1, c2]
          \<and> cid c1 = take 7 (hexdigest (sha1 (encode (str_dict (files c1)))))
          \<and> cid c2 = take 7 (hexdigest (sha1 (encode (str_dict (files c2)))))
          \<and> length (cid c1) = 7 \<and> length (cid c2) = 7"
    by blast
  with main_checked_out_feature main_checked_out_tree show ?thesis
    by blast
qed

section \<open>Creating a branch\<close>

lemma root_of_graft: "root_of (graft cur n t) = root_of t"
  by (cases t) simp

lemma nodes_graft: "set (nodes (graft cur n t)) \<subseteq> insert n (set (nodes t))"
proof (induction t)
  case (ANode a ts)
  then show ?case by (auto simp: subset_iff)
qed

lemma tree_at_graft:
  assumes "tree_at h t" "list_all (\<lambda>x. x < n) (nodes t)" "cur < n"
  shows "tree_at (h(n := BranchNode nm (Some cur),
                    cur := (h cur)\<lparr>children := children (h cur) @ [n]\<rparr>)) (graft cur n t)"
  using assms(1,2)
proof (induction t)
  case (ANode a ts)
  let ?h = "h(n := BranchNode nm (Some cur), cur := (h cur)\<lparr>children := children (h cur) @ [n]\<rparr>)"
  from ANode.prems have a: "a \<noteq> n" and kids: "children (h a) = map root_of ts"
    by simp_all
  have sub: "tree_at ?h (graft cur n s)" if "s \<in> set ts" for s
  proof -
    from ANode.prems that have "tree_at h s" "list_all (\<lambda>x. x < n) (nodes s)"
      by (auto simp: list_all_iff)
    with that show ?thesis by (rule ANode.IH)
  qed
  have leaf: "tree_at ?h (ANode n [])"
    using assms(3) by (simp add: BranchNode_def)
  have "children (?h a) = map root_of (map (graft cur n) ts @ (if a = cur then [ANode n []] else []))"
    using a kids by (auto simp: root_of_graft comp_def)
  moreover have "list_all (tree_at ?h) (map (graft cur n) ts @ (if a = cur then [ANode n []] else []))"
    using sub leaf by (auto simp: list_all_iff simp del: tree_at.simps fun_upd_apply)
  ultimately show ?case
    by (simp del: fun_upd_apply)
qed

text \<open>What \<^verbatim>\<open>create_branch\<close> leaves when no child of the current branch has the name.\<close>

lemma create_branch_new:
  assumes "tree_at (heap m) t" "root_of t = root m" "list_all (\<lambda>x. x < next_addr m) (nodes t)"
    and "current m < next_addr m"
    and "\<not> list_ex (\<lambda>child. name (heap m child) = nm) (children (heap m (current m)))"
  shows "create_branch m nm =
     Some (Inr (m\<lparr>next_addr := Suc (next_addr m),
                   heap := (heap m)(next_addr m := BranchNode nm (Some (current m)),
                       current m := (heap m (current m))
                          \<lparr>children := children (heap m (current m)) @ [next_addr m]\<rparr>),
                   file_content := Some (doc_of
                     ((heap m)(next_addr m := BranchNode nm (Some (current m)),
                       current m := (heap m (current m))
                          \<lparr>children := children (heap m (current m)) @ [next_addr m]\<rparr>))
                     (graft (current m) (next_addr m) t))\<rparr>))"
proof -
  define h' where "h' = (heap m)(next_addr m := BranchNode nm (Some (current m)),
                       current m := (heap m (current m))
                          \<lparr>children := children (heap m (current m)) @ [next_addr m]\<rparr>)"
  define m2 where "m2 = m\<lparr>next_addr := Suc (next_addr m), heap := h'\<rparr>"
  have tree: "tree_at (heap m2) (graft (current m) (next_addr m) t)"
    using tree_at_graft [OF assms(1,3,4)] by (simp add: m2_def h'_def)
  have rt: "root_of (graft (current m) (next_addr m) t) = root m2"
    using assms(2) by (simp add: root_of_graft m2_def)
  have ne: "current m \<noteq> next_addr m"
    using assms(4) by simp
  have "create_branch m nm = map_option Inr (save m2)"
    using assms(5) ne by (simp add: create_branch_def new_node_def m2_def h'_def)
  also have "\<dots> = Some (Inr (m2\<lparr>file_content := Some (doc_of (heap m2) (graft (current m) (next_addr m) t))\<rparr>))"
    unfolding save_tree [OF tree rt] by simp
  finally show ?thesis
    by (simp add: m2_def h'_def)
qed

text \<open>
  C8. In a manager whose heap holds a tree below the root, all of it allocated, and
  whose current branch is allocated: \<^verbatim>\<open>create_branch\<close> raises the error for a duplicate
  branch when some child of the current branch has the name, and only then; otherwise it
  returns, the new node is the last child of the current branch, it has the name, the
  current branch as parent, no children and an empty commit log, and nothing else
  changes in the tree. Whether the name occurs elsewhere in the tree plays no role.
\<close>

theorem create_branch_duplicate_iff:
  assumes "tree_at (heap m) t" "root_of t = root m" "list_all (\<lambda>x. x < next_addr m) (nodes t)"
    and "current m < next_addr m"
  shows "(list_ex (\<lambda>child. name (heap m child) = nm) (children (heap m (current m))) \<longrightarrow>
            create_branch m nm = Some (Inl (ValueError (''Branch '' @ nm @ '' already exists''))))
       \<and> (\<not> list_ex (\<lambda>child. name (heap m child) = nm) (children (heap m (current m))) \<longrightarrow>
            (\<exists>m'. create_branch m nm = Some (Inr m')
               \<and> children (heap m' (current m)) = children (heap m (current m)) @ [next_addr m]
               \<and> heap m' (next_addr m) =
                    \<lparr>name = nm, parent = Some (current m), children = [], commits = []\<rparr>
               \<and> name (heap m' (current m)) = name (heap m (current m))
               \<and> parent (heap m' (current m)) = parent (heap m (current m))
               \<and> commits (heap m' (current m)) = commits (heap m (current m))
               \<and> (\<forall>b. b \<noteq> current m \<and> b \<noteq> next_addr m \<longrightarrow> heap m' b = heap m b)
               \<and> current m' = current m \<and> root m' = root m
               \<and> next_addr m' = Suc (next_addr m)))"
proof (intro conjI impI)
  assume "list_ex (\<lambda>child. name (heap m child) = nm) (children (heap m (current m)))"
  then show "create_branch m nm = Some (Inl (ValueError (''Branch '' @ nm @ '' already exists'')))"
    by (simp add: create_branch_def)
next
  assume "\<not> list_ex (\<lambda>child. name (heap m child) = nm) (children (heap m (current m)))"
  from create_branch_new [OF assms this] assms(4)
  show "\<exists>m'. create_branch m nm = Some (Inr m')
               \<and> children (heap m' (current m)) = children (heap m (current m)) @ [next_addr m]
               \<and> heap m' (next_addr m) =
                    \<lparr>name = nm, parent = Some (current m), children = [], commits = []\<rparr>
               \<and> name (heap m' (current m)) = name (heap m (current m))
               \<and> parent (heap m' (current m)) = parent (heap m (current m))
               \<and> commits (heap m' (current m)) = commits (heap m (current m))
               \<and> (\<forall>b. b \<noteq> current m \<and> b \<noteq> next_addr m \<longrightarrow> heap m' b = heap m b)
               \<and> current m' = current m \<and> root m' = root m
               \<and> next_addr m' = Suc (next_addr m)"
    by (simp add: BranchNode_def)
qed

lemma nested_manager_tree:
  "tree_at (heap (nested_manager\<lparr>current := c\<rparr>)) (ANode 0 [ANode 1 [ANode 3 [ANode 4 []]], ANode 2 []])"
  "root_of (ANode 0 [ANode 1 [ANode 3 [ANode 4 []]], ANode 2 []]) = root (nested_manager\<lparr>current := c\<rparr>)"
  "list_all (\<lambda>x. x < next_addr (nested_manager\<lparr>current := c\<rparr>))
     (nodes (ANode 0 [ANode 1 [ANode 3 [ANode 4 []]], ANode 2 []]))"
  by (simp_all add: nested_manager_def nested_heap_def)

theorem create_branch_duplicate_iff_witness:
  "tree_at (heap (nested_manager\<lparr>current := 1\<rparr>)) (ANode 0 [ANode 1 [ANode 3 [ANode 4 []]], ANode 2 []])
   \<and> root_of (ANode 0 [ANode 1 [ANode 3 [ANode 4 []]], ANode 2 []]) = root (nested_manager\<lparr>current := 1\<rparr>)
   \<and> list_all (\<lambda>x. x < next_addr (nested_manager\<lparr>current := 1\<rparr>))
        (nodes (ANode 0 [ANode 1 [ANode 3 [ANode 4 []]], ANode 2 []]))
   \<and> current (nested_manager\<lparr>current := 1\<rparr>) < next_addr (nested_manager\<lparr>current := 1\<rparr>)
   \<and> list_ex (\<lambda>child. name (heap (nested_manager\<lparr>current := 1\<rparr>) child) = ''x'')
        (children (heap (nested_manager\<lparr>current := 1\<rparr>) (current (nested_manager\<lparr>current := 1\<rparr>))))
   \<and> create_branch (nested_manager\<lparr>current := 1\<rparr>) ''x'' = Some (Inl (ValueError ''Branch x already exists''))
   \<and> \<not> list_ex (\<lambda>child. name (heap (nested_manager\<lparr>current := 2\<rparr>) child) = ''x'')
        (children (heap (nested_manager\<lparr>current := 2\<rparr>) (current (nested_manager\<lparr>current := 2\<rparr>))))
   \<and> (\<exists>m'. create_branch (nested_manager\<lparr>current := 2\<rparr>) ''x'' = Some (Inr m')
          \<and> children (heap m' 2) = [5]
          \<and> heap m' 5 = \<lparr>name = ''x'', parent = Some 2, children = [], commits = []\<rparr>)"
proof -
  have c: "current (nested_manager\<lparr>current := 1\<rparr>) < next_addr (nested_manager\<lparr>current := 1\<rparr>)"
    "current (nested_manager\<lparr>current := 2\<rparr>) < next_addr (nested_manager\<lparr>current := 2\<rparr>)"
    by (simp_all add: nested_manager_def)
  have dup: "list_ex (\<lambda>child. name (heap (nested_manager\<lparr>current := 1\<rparr>) child) = ''x'')
        (children (heap (nested_manager\<lparr>current := 1\<rparr>) (current (nested_manager\<lparr>current := 1\<rparr>))))"
    by (simp add: nested_manager_def nested_heap_def)
  have nodup: "\<not> list_ex (\<lambda>child. name (heap (nested_manager\<lparr>current := 2\<rparr>) child) = ''x'')
        (children (heap (nested_manager\<lparr>current := 2\<rparr>) (current (nested_manager\<lparr>current := 2\<rparr>))))"
    by (simp add: nested_manager_def nested_heap_def)
  from create_branch_duplicate_iff [OF nested_manager_tree c(1), where nm = "''x''"] dup
  have first: "create_branch (nested_manager\<lparr>current := 1\<rparr>) ''x'' = Some (Inl (ValueError ''Branch x already exists''))"
    by simp
  from create_branch_duplicate_iff [OF nested_manager_tree c(2), where nm = "''x''"] nodup
  obtain m' where "create_branch (nested_manager\<lparr>current := 2\<rparr>) ''x'' = Some (Inr m')"
    "children (heap m' (current (nested_manager\<lparr>current := 2\<rparr>))) =
       children (heap (nested_manager\<lparr>current := 2\<rparr>) (current (nested_manager\<lparr>current := 2\<rparr>)))
         @ [next_addr (nested_manager\<lparr>current := 2\<rparr>)]"
    "heap m' (next_addr (nested_manager\<lparr>current := 2\<rparr>)) =
       \<lparr>name = ''x'', parent = Some (current (nested_manager\<lparr>current := 2\<rparr>)), children = [], commits = []\<rparr>"
    by blast
  then have second: "\<exists>m'. create_branch (nested_manager\<lparr>current := 2\<rparr>) ''x'' = Some (Inr m')
          \<and> children (heap m' 2) = [5]
          \<and> heap m' 5 = \<lparr>name = ''x'', parent = Some 2, children = [], commits = []\<rparr>"
    by (intro exI [of _ m']) (simp add: nested_manager_def nested_heap_def)
  from nested_manager_tree [of 1] c(1) dup first nodup second show ?thesis
    by blast
qed

section \<open>Deleting a branch\<close>

lemma delete_branch_not_found:
  "find_branch_postorder (heap m) (root m) nm = Some None \<Longrightarrow> delete_branch m nm = Some (Inr m)"
  by (simp add: delete_branch_def)

lemma delete_branch_has_children:
  "find_branch_postorder (heap m) (root m) nm = Some (Some b) \<Longrightarrow> children (heap m b) \<noteq> [] \<Longrightarrow>
     delete_branch m nm = Some (Inr m)"
  by (simp add: delete_branch_def)

lemma delete_branch_no_parent:
  "find_branch_postorder (heap m) (root m) nm = Some (Some b) \<Longrightarrow> children (heap m b) = [] \<Longrightarrow>
     parent (heap m b) = None \<Longrightarrow>
     delete_branch m nm = Some (Inl (AttributeError ''NoneType object has no attribute children''))"
  by (simp add: delete_branch_def)

lemma delete_branch_leaf:
  assumes "find_branch_postorder (heap m) (root m) nm = Some (Some b)" "children (heap m b) = []"
    and "parent (heap m b) = Some p" "b \<in> set (children (heap m p))"
    and "tree_at ((heap m)(p := (heap m p)\<lparr>children := remove1 b (children (heap m p))\<rparr>)) t'"
    and "root_of t' = root m"
  shows "delete_branch m nm =
     Some (Inr (m\<lparr>heap := (heap m)(p := (heap m p)\<lparr>children := remove1 b (children (heap m p))\<rparr>),
                  file_content := Some (doc_of
                     ((heap m)(p := (heap m p)\<lparr>children := remove1 b (children (heap m p))\<rparr>)) t')\<rparr>))"
proof -
  define m2 where "m2 = m\<lparr>heap := (heap m)(p := (heap m p)\<lparr>children := remove1 b (children (heap m p))\<rparr>)\<rparr>"
  have t': "tree_at (heap m2) t'" "root_of t' = root m2"
    using assms(5,6) by (simp_all add: m2_def)
  have "delete_branch m nm = map_option Inr (save m2)"
    using assms(1-4) by (simp add: delete_branch_def m2_def)
  then show ?thesis
    unfolding save_tree [OF t'] by (simp add: m2_def)
qed

lemma new_repository:
  "BranchManager None =
     \<lparr>heap = (\<lambda>_. BranchNode [] None)(0 := BranchNode ''main'' None),
      next_addr = Suc 0, root = 0, current = 0, file_content = None\<rparr>"
  by (simp add: BranchManager_def new_node_def load_def)

lemma new_repository_tree:
  "tree_at (heap (BranchManager None)) (ANode 0 [])" "root_of (ANode 0 []) = root (BranchManager None)"
  by (simp_all add: new_repository BranchNode_def)

text \<open>
  C6, at the input where the code departs from it. A new repository holds the root
  \<^verbatim>\<open>main\<close> alone. \<^verbatim>\<open>delete_branch("main")\<close> finds the root, which has no children, and
  evaluates \<^verbatim>\<open>branch.parent.children\<close> with \<^verbatim>\<open>branch.parent\<close> being \<^verbatim>\<open>None\<close>: the call
  raises \<^verbatim>\<open>AttributeError\<close> instead of returning silently. (Where the name is not found,
  or the node found has children, the call returns and leaves the manager as it was:
  \<open>delete_branch_not_found\<close>, \<open>delete_branch_has_children\<close>.)
\<close>

theorem delete_root_raises:
  "delete_branch (BranchManager None) ''main''
     = Some (Inl (AttributeError ''NoneType object has no attribute children''))"
proof -
  have "find_branch_postorder (heap (BranchManager None)) (root_of (ANode 0 [])) ''main'' =
          Some (post_search (heap (BranchManager None)) ''main'' (ANode 0 []))"
    using new_repository_tree(1) by (rule find_branch_postorder_tree(1))
  then have "find_branch_postorder (heap (BranchManager None)) (root (BranchManager None)) ''main'' = Some (Some 0)"
    by (simp add: new_repository BranchNode_def)
  then show ?thesis
    by (rule delete_branch_no_parent) (simp_all add: new_repository BranchNode_def)
qed

lemma loaded_repository:
  "BranchManager (Some saved_repository) =
     \<lparr>heap = (\<lambda>_. BranchNode [] None)
        (0 := \<lparr>name = ''main'', parent = None, children = [], commits = []\<rparr>,
         1 := \<lparr>name = ''main'', parent = None, children = [2], commits = []\<rparr>,
         2 := \<lparr>name = ''feature'', parent = None, children = [], commits = []\<rparr>),
      next_addr = 3, root = 1, current = 1,
      file_content = Some saved_repository\<rparr>"
  by (simp add: BranchManager_def new_node_def load_def BranchNode_def saved_repository_def fun_eq_iff)

text \<open>
  C5, at the input where the code departs from it. In a repository loaded from a file
  that holds \<^verbatim>\<open>main\<close> with the child \<^verbatim>\<open>feature\<close>, the node of \<^verbatim>\<open>feature\<close> is in the
  child list of the root and its \<^verbatim>\<open>parent\<close> is \<^verbatim>\<open>None\<close>: \<^verbatim>\<open>_deserialize\<close> creates every
  node with \<^verbatim>\<open>BranchNode(data["name"])\<close> and never assigns \<^verbatim>\<open>parent\<close>, whereas
  \<^verbatim>\<open>create_branch\<close> passes the parent. \<^verbatim>\<open>delete_branch\<close> then cannot detach the leaf: it
  raises \<^verbatim>\<open>AttributeError\<close>.
\<close>

theorem delete_loaded_branch_raises:
  "children (heap (BranchManager (Some saved_repository)) (root (BranchManager (Some saved_repository)))) = [2]
   \<and> name (heap (BranchManager (Some saved_repository)) 2) = ''feature''
   \<and> parent (heap (BranchManager (Some saved_repository)) 2) = None
   \<and> delete_branch (BranchManager (Some saved_repository)) ''feature''
        = Some (Inl (AttributeError ''NoneType object has no attribute children''))"
proof -
  let ?m = "BranchManager (Some saved_repository)"
  have tree: "tree_at (heap ?m) (ANode 1 [ANode 2 []])"
    by (simp add: loaded_repository)
  have "find_branch_postorder (heap ?m) (root_of (ANode 1 [ANode 2 []])) ''feature'' =
          Some (post_search (heap ?m) ''feature'' (ANode 1 [ANode 2 []]))"
    using tree by (rule find_branch_postorder_tree(1))
  then have "find_branch_postorder (heap ?m) (root ?m) ''feature'' = Some (Some 2)"
    by (simp add: loaded_repository)
  then have "delete_branch ?m ''feature''
        = Some (Inl (AttributeError ''NoneType object has no attribute children''))"
    by (rule delete_branch_no_parent) (simp_all add: loaded_repository)
  then show ?thesis
    by (simp add: loaded_repository)
qed

end
